theory Spec2Isabelle
  imports Complex_Main "HOL-Library.Multiset"
begin

section \<open>Data model of the network graph pages\<close>

text \<open>
  The two graph pages receive a payload \<open>{nodes, edges}\<close> and a \<open>filters\<close> object.
  A node id is used only through \<open>node.id.toString()\<close>, so \<open>node_id\<close> is that string.
  \<open>cluster_id\<close> is \<open>None\<close> where the property is \<open>undefined\<close>. Scores and the
  coordinates of the clustered layout are modelled as real numbers (JavaScript doubles
  without rounding; the basic page rounds explicitly, see there), cluster ids as
  integers that \<open>String\<close> prints in plain decimal digits. The plain objects that the
  code uses as dictionaries are modelled as maps, so an id that names a property of
  \<open>Object.prototype\<close> is outside the model.
\<close>

record node =
  node_id :: string
  risk_score :: real
  mule_suspected :: bool
  cluster_id :: "int option"

record edge =
  source :: string
  target :: string
  suspicious :: bool
  amount :: "real option"
  weight :: "real option"

text \<open>
  \<open>filters.cluster\<close> is the value of a select element: the empty string, or the decimal
  string of one of the cluster ids of the data. It is represented by what
  \<open>filters.cluster && ... parseInt(filters.cluster)\<close> reads from it: \<open>None\<close> for the
  empty (falsy) string, \<open>Some c\<close> for the string of the integer \<open>c\<close>.
\<close>

record filters =
  showMuleOnly :: bool
  minRiskScore :: real
  cluster :: "int option"

text \<open>The payload; a collection that is missing from it is \<open>None\<close>.\<close>

record graph_data =
  nodes :: "node list option"
  edges :: "edge list option"

section \<open>Filtering\<close>

definition node_visible :: "filters \<Rightarrow> node \<Rightarrow> bool" where
  "node_visible f n =
    (if showMuleOnly f \<and> \<not> mule_suspected n then False
     else if risk_score n < minRiskScore f then False
     else if (case cluster f of None \<Rightarrow> False | Some c \<Rightarrow> cluster_id n \<noteq> Some c) then False
     else True)"

definition filteredNodes :: "filters \<Rightarrow> node list \<Rightarrow> node list" where
  "filteredNodes f ns = filter (node_visible f) ns"

definition nodeIds :: "node list \<Rightarrow> string set" where
  "nodeIds fns = set (map node_id fns)"

definition filteredEdges :: "filters \<Rightarrow> node list \<Rightarrow> edge list \<Rightarrow> edge list" where
  "filteredEdges f ns es =
    filter (\<lambda>e. source e \<in> nodeIds (filteredNodes f ns) \<and> target e \<in> nodeIds (filteredNodes f ns)) es"

section \<open>Cluster groups and connection counts\<close>

text \<open>
  \<open>clusterGroups\<close> is a plain object used as a dictionary from cluster id to the list of
  its nodes. It is kept as an association list in insertion order; \<open>Object_entries\<close>
  then gives the enumeration order of JavaScript: keys that are array indices in
  ascending order first, every other key (a negative id) in insertion order after them.
\<close>

definition clusterKey :: "node \<Rightarrow> int" where
  "clusterKey n = (case cluster_id n of None \<Rightarrow> - 1 | Some c \<Rightarrow> c)"

fun group_push :: "int \<Rightarrow> node \<Rightarrow> (int \<times> node list) list \<Rightarrow> (int \<times> node list) list" where
  "group_push k n [] = [(k, [n])]"
| "group_push k n ((k', ms) # gs) =
    (if k' = k then (k', ms @ [n]) # gs else (k', ms) # group_push k n gs)"

definition clusterGroups :: "node list \<Rightarrow> (int \<times> node list) list" where
  "clusterGroups fns = foldl (\<lambda>gs n. group_push (clusterKey n) n gs) [] fns"

definition is_array_index :: "int \<Rightarrow> bool" where
  "is_array_index k = (0 \<le> k \<and> k < 2 ^ 32 - 1)"

definition Object_entries :: "(int \<times> 'a) list \<Rightarrow> (int \<times> 'a) list" where
  "Object_entries gs =
    sort_key fst (filter (\<lambda>g. is_array_index (fst g)) gs) @ filter (\<lambda>g. \<not> is_array_index (fst g)) gs"

text \<open>
  \<open>connectionCount\<close> is only ever read as \<open>connectionCount[k] || 0\<close>, so a missing key is
  the count 0.
\<close>

definition connectionCount :: "edge list \<Rightarrow> string \<Rightarrow> nat" where
  "connectionCount fes =
    foldl (\<lambda>cc e. let cc1 = cc(source e := cc (source e) + 1)
                   in cc1(target e := cc1 (target e) + 1)) (\<lambda>k. 0) fes"

section \<open>Radial placement\<close>

text \<open>
  The remainder operator of JavaScript truncates towards zero; a division is \<open>None\<close> where
  the divisor is zero (the double would be \<open>NaN\<close> or infinite).
\<close>

definition js_rem :: "int \<Rightarrow> int \<Rightarrow> int" where
  "js_rem a b = sgn a * (\<bar>a\<bar> mod \<bar>b\<bar>)"

definition js_div :: "real \<Rightarrow> real \<Rightarrow> real option" where
  "js_div a b = (if b = 0 then None else Some (a / b))"

definition clusterColors :: "string list" where
  "clusterColors = [''#ef4444'', ''#3b82f6'', ''#10b981'', ''#f59e0b'', ''#8b5cf6'',
                    ''#ec4899'', ''#06b6d4'', ''#84cc16'', ''#f97316'', ''#6366f1'']"

definition clusterRadius :: "nat \<Rightarrow> real" where
  "clusterRadius clusterSize = max (150 + sqrt (real clusterSize) * 45) 200"

definition clusterAngle :: "nat \<Rightarrow> nat \<Rightarrow> real" where
  "clusterAngle clusterIdx numClusters =
    (real clusterIdx / real (max numClusters 1)) * pi * 2 - pi / 2"

definition centerX :: "nat \<Rightarrow> nat \<Rightarrow> nat \<Rightarrow> real" where
  "centerX clusterIdx numClusters clusterSize =
    600 + (500 + clusterRadius clusterSize) * cos (clusterAngle clusterIdx numClusters)"

definition centerY :: "nat \<Rightarrow> nat \<Rightarrow> nat \<Rightarrow> real" where
  "centerY clusterIdx numClusters clusterSize =
    600 + (500 + clusterRadius clusterSize) * sin (clusterAngle clusterIdx numClusters)"

record cluster_meta =
  cm_centerX :: real
  cm_centerY :: real
  cm_radius :: real
  cm_color :: string
  cm_size :: nat

text \<open>
  \<open>[...clusterNodes].sort((a, b) => countB - countA)\<close>: descending by connection count.
  \<open>Array.prototype.sort\<close> is stable, as is the insertion sort \<open>sort_key\<close>.
\<close>

definition sortedNodes :: "(string \<Rightarrow> nat) \<Rightarrow> node list \<Rightarrow> node list" where
  "sortedNodes cc clusterNodes = sort_key (\<lambda>n. - int (cc (node_id n))) clusterNodes"

definition ring :: "int \<Rightarrow> int" where
  "ring idx = (idx - 1) div 8 + 1"

definition posInRing :: "int \<Rightarrow> int" where
  "posInRing idx = js_rem (idx - 1) 8"

definition nodesInRing :: "int \<Rightarrow> int \<Rightarrow> int" where
  "nodesInRing idx clusterSize = min 8 (clusterSize - 1 - (ring idx - 1) * 8)"

definition ringRadius :: "int \<Rightarrow> real" where
  "ringRadius idx = real_of_int (ring idx * 60)"

definition angleOffset :: "int \<Rightarrow> real" where
  "angleOffset idx = real_of_int (js_rem (ring idx) 2) * pi / 8"

definition angle :: "int \<Rightarrow> int \<Rightarrow> real option" where
  "angle idx clusterSize =
    map_option (\<lambda>q. q * pi * 2 + angleOffset idx)
      (js_div (real_of_int (posInRing idx)) (real_of_int (nodesInRing idx clusterSize)))"

definition node_position :: "real \<Rightarrow> real \<Rightarrow> int \<Rightarrow> int \<Rightarrow> (real \<times> real) option" where
  "node_position cx cy idx clusterSize =
    (if idx = 0 \<and> clusterSize > 1 then Some (cx, cy)
     else map_option (\<lambda>a. (cx + ringRadius idx * cos a, cy + ringRadius idx * sin a))
            (angle idx clusterSize))"

section \<open>The flow nodes of the clustered layout\<close>

text \<open>
  One flow node per visible node. The display label (\<open>node.name\<close>) and the constant
  \<open>type\<close> and \<open>draggable\<close> fields are left out; everything computed from the graph is kept.
\<close>

record flow_node =
  fn_id :: string
  fn_position :: "(real \<times> real) option"
  fn_data :: node
  fn_highlighted :: bool
  fn_degree :: nat
  fn_clusterColor :: string
  fn_zIndex :: nat

definition zIndex :: "node \<Rightarrow> nat" where
  "zIndex n = (if risk_score n \<ge> 70 then 100 else if risk_score n \<ge> 40 then 50 else 10)"

definition highlighted :: "string option \<Rightarrow> node \<Rightarrow> bool" where
  "highlighted highlightId n =
    (case highlightId of None \<Rightarrow> False | Some h \<Rightarrow> h \<noteq> [] \<and> node_id n = h)"

definition clusterColor :: "nat \<Rightarrow> string" where
  "clusterColor clusterIdx = clusterColors ! (clusterIdx mod length clusterColors)"

definition clusterMeta :: "nat \<Rightarrow> nat \<Rightarrow> node list \<Rightarrow> cluster_meta" where
  "clusterMeta numClusters clusterIdx clusterNodes =
    \<lparr> cm_centerX = centerX clusterIdx numClusters (length clusterNodes),
      cm_centerY = centerY clusterIdx numClusters (length clusterNodes),
      cm_radius = clusterRadius (length clusterNodes),
      cm_color = clusterColor clusterIdx,
      cm_size = length clusterNodes \<rparr>"

definition layoutCluster ::
  "(string \<Rightarrow> nat) \<Rightarrow> string option \<Rightarrow> nat \<Rightarrow> nat \<Rightarrow> node list \<Rightarrow> flow_node list" where
  "layoutCluster cc highlightId numClusters clusterIdx clusterNodes =
    (let clusterSize = length clusterNodes;
         meta = clusterMeta numClusters clusterIdx clusterNodes
     in map (\<lambda>(idx, n).
          \<lparr> fn_id = node_id n,
            fn_position = node_position (cm_centerX meta) (cm_centerY meta) (int idx) (int clusterSize),
            fn_data = n,
            fn_highlighted = highlighted highlightId n,
            fn_degree = cc (node_id n),
            fn_clusterColor = cm_color meta,
            fn_zIndex = zIndex n \<rparr>)
        (enumerate 0 (sortedNodes cc clusterNodes)))"

definition clusterEntries :: "node list \<Rightarrow> (nat \<times> int \<times> node list) list" where
  "clusterEntries fns = enumerate 0 (Object_entries (clusterGroups fns))"

definition flowNodes :: "(string \<Rightarrow> nat) \<Rightarrow> string option \<Rightarrow> node list \<Rightarrow> flow_node list" where
  "flowNodes cc highlightId fns =
    concat (map (\<lambda>(clusterIdx, clusterId, clusterNodes).
                   layoutCluster cc highlightId (length (clusterGroups fns)) clusterIdx clusterNodes)
                (clusterEntries fns))"

definition clusterMetadata :: "node list \<Rightarrow> int \<Rightarrow> cluster_meta option" where
  "clusterMetadata fns =
    foldl (\<lambda>m (clusterIdx, clusterId, clusterNodes).
             m(clusterId \<mapsto> clusterMeta (length (clusterGroups fns)) clusterIdx clusterNodes))
          (\<lambda>k. None) (clusterEntries fns)"

definition nodeClusterMap :: "flow_node list \<Rightarrow> string \<Rightarrow> int option" where
  "nodeClusterMap fl = foldl (\<lambda>m n. m(fn_id n := cluster_id (fn_data n))) (\<lambda>k. None) fl"

section \<open>Decimal strings\<close>

text \<open>
  The connector resolver writes a pair of cluster ids as a string and reads it back, so
  the conversions are modelled on character lists. \<open>show_int\<close> is \<open>String(n)\<close> for an
  integer \<open>n\<close>; \<open>Number_js\<close> is \<open>Number(s)\<close> on the strings that can reach it here (the
  empty string is 0, a decimal numeral with an optional minus sign is its value, and
  anything else is \<open>NaN\<close>, written \<open>None\<close>).
\<close>

definition digit_char :: "nat \<Rightarrow> char" where
  "digit_char d = ''0123456789'' ! d"

fun show_nat :: "nat \<Rightarrow> string" where
  "show_nat n = (if n < 10 then [digit_char n] else show_nat (n div 10) @ [digit_char (n mod 10)])"

declare show_nat.simps [simp del]

definition show_int :: "int \<Rightarrow> string" where
  "show_int i = (if i < 0 then CHR ''-'' # show_nat (nat (- i)) else show_nat (nat i))"

definition is_digit :: "char \<Rightarrow> bool" where
  "is_digit c = (c \<in> set ''0123456789'')"

text \<open>The value of a digit is its place in the string of the ten digits.\<close>

definition digit_val :: "char \<Rightarrow> nat" where
  "digit_val c = length (takeWhile (\<lambda>d. d \<noteq> c) ''0123456789'')"

definition digits_val :: "string \<Rightarrow> nat" where
  "digits_val s = foldl (\<lambda>acc c. 10 * acc + digit_val c) 0 s"

definition Number_js :: "string \<Rightarrow> int option" where
  "Number_js s =
    (if s = [] then Some 0
     else if list_all is_digit s then Some (int (digits_val s))
     else if hd s = CHR ''-'' \<and> tl s \<noteq> [] \<and> list_all is_digit (tl s) then Some (- int (digits_val (tl s)))
     else None)"

fun split_on :: "char \<Rightarrow> string \<Rightarrow> string list" where
  "split_on c [] = [[]]"
| "split_on c (x # xs) =
    (if x = c then [] # split_on c xs
     else (case split_on c xs of [] \<Rightarrow> [[x]] | p # ps \<Rightarrow> (x # p) # ps))"

definition join_dash :: "string list \<Rightarrow> string" where
  "join_dash ps = (case ps of [] \<Rightarrow> [] | p # qs \<Rightarrow> foldl (\<lambda>acc q. acc @ ''-'' @ q) p qs)"

section \<open>Edges of the clustered layout\<close>

datatype edge_type = Default | Smoothstep

record flow_edge =
  fe_id :: string
  fe_source :: string
  fe_target :: string
  fe_type :: edge_type
  fe_animated :: bool
  fe_stroke :: "string option"
  fe_strokeWidth :: real
  fe_opacity :: real
  fe_isHighRisk :: bool
  fe_isPartOfCircular :: bool
  fe_amount :: "real option"
  fe_isIntraCluster :: bool

text \<open>
  \<open>clusterColors[c % 10]\<close> on a raw cluster id: the remainder of a negative id is
  negative, and the array read is then \<open>undefined\<close>.
\<close>

definition color_at :: "int \<Rightarrow> string option" where
  "color_at c =
    (let i = js_rem c (int (length clusterColors))
     in if 0 \<le> i \<and> nat i < length clusterColors then Some (clusterColors ! nat i) else None)"

definition isPartOfCircular :: "nat option \<Rightarrow> bool" where
  "isPartOfCircular circularCount = (case circularCount of None \<Rightarrow> False | Some c \<Rightarrow> c > 0)"

definition flowEdge :: "nat option \<Rightarrow> (string \<Rightarrow> int option) \<Rightarrow> nat \<Rightarrow> edge \<Rightarrow> flow_edge" where
  "flowEdge circularCount ncm index e =
    (let isHighRisk = suspicious e;
         srcCluster = ncm (source e);
         tgtCluster = ncm (target e);
         isIntraCluster = (srcCluster \<noteq> None \<and> srcCluster = tgtCluster);
         style =
           (if isHighRisk then (Some ''#ef4444'', 2.5, 0.9)
            else if isPartOfCircular circularCount then (Some ''#f59e0b'', 2, 0.7)
            else if isIntraCluster
              then (color_at (case srcCluster of None \<Rightarrow> 0 | Some c \<Rightarrow> c), 1.2, 0.5)
            else (Some ''#64748b'', 1.2, 0.4))
     in \<lparr> fe_id = ''e'' @ show_nat index,
          fe_source = source e,
          fe_target = target e,
          fe_type = (if isIntraCluster then Default else Smoothstep),
          fe_animated = isHighRisk,
          fe_stroke = fst style,
          fe_strokeWidth = fst (snd style),
          fe_opacity = snd (snd style),
          fe_isHighRisk = isHighRisk,
          fe_isPartOfCircular = isPartOfCircular circularCount,
          fe_amount = amount e,
          fe_isIntraCluster = isIntraCluster \<rparr>)"

definition flowEdges :: "nat option \<Rightarrow> (string \<Rightarrow> int option) \<Rightarrow> edge list \<Rightarrow> flow_edge list" where
  "flowEdges circularCount ncm fes = map (\<lambda>(index, e). flowEdge circularCount ncm index e) (enumerate 0 fes)"

section \<open>Cluster connector edges\<close>

definition centerNode :: "(string \<Rightarrow> nat) \<Rightarrow> node list \<Rightarrow> node option" where
  "centerNode cc clusterNodes =
    (case clusterNodes of [] \<Rightarrow> None
     | first # rest \<Rightarrow>
         Some (foldl (\<lambda>best n. if cc (node_id n) > cc (node_id best) then n else best)
                 first clusterNodes))"

definition clusterCenters :: "(string \<Rightarrow> nat) \<Rightarrow> node list \<Rightarrow> int \<Rightarrow> string option" where
  "clusterCenters cc fns =
    foldl (\<lambda>m (clusterIdx, clusterId, clusterNodes).
             (case centerNode cc clusterNodes of None \<Rightarrow> m
              | Some c \<Rightarrow> m(clusterId \<mapsto> node_id c)))
          (\<lambda>k. None) (clusterEntries fns)"

definition pair_key :: "int \<Rightarrow> int \<Rightarrow> string" where
  "pair_key srcCluster tgtCluster = join_dash (map show_int (sort [srcCluster, tgtCluster]))"

text \<open>A \<open>Set\<close> of strings, iterated in insertion order.\<close>

definition set_add :: "string \<Rightarrow> string list \<Rightarrow> string list" where
  "set_add p ps = (if p \<in> set ps then ps else ps @ [p])"

definition connectedClusters :: "(string \<Rightarrow> int option) \<Rightarrow> edge list \<Rightarrow> string list" where
  "connectedClusters ncm fes =
    foldl (\<lambda>ps e.
        (case (ncm (source e), ncm (target e)) of
           (Some srcCluster, Some tgtCluster) \<Rightarrow>
             if srcCluster \<noteq> tgtCluster then set_add (pair_key srcCluster tgtCluster) ps else ps
         | _ \<Rightarrow> ps))
      [] fes"

record connector_edge =
  ce_id :: string
  ce_source :: string
  ce_target :: string
  ce_clusters :: "int \<times> int"

text \<open>
  \<open>const [c1, c2] = pair.split('-').map(Number)\<close>: the first two pieces, \<open>None\<close> for a
  piece that is missing or not a number. A cluster centre is looked up by the string
  of the number, and \<open>center1 && center2\<close> needs both to be defined and non-empty.
\<close>

definition pair_numbers :: "string \<Rightarrow> int option \<times> int option" where
  "pair_numbers pair =
    (let parts = map Number_js (split_on CHR ''-'' pair)
     in (if 0 < length parts then parts ! 0 else None,
         if 1 < length parts then parts ! 1 else None))"

definition center_of :: "(int \<Rightarrow> string option) \<Rightarrow> int option \<Rightarrow> string option" where
  "center_of centers c = (case c of None \<Rightarrow> None | Some k \<Rightarrow> centers k)"

definition truthy :: "string option \<Rightarrow> bool" where
  "truthy s = (case s of None \<Rightarrow> False | Some t \<Rightarrow> t \<noteq> [])"

definition connectorEdge :: "(int \<Rightarrow> string option) \<Rightarrow> string \<Rightarrow> connector_edge option" where
  "connectorEdge centers pair =
    (case pair_numbers pair of
       (c1, c2) \<Rightarrow>
         (case (center_of centers c1, center_of centers c2, c1, c2) of
            (Some center1, Some center2, Some k1, Some k2) \<Rightarrow>
              if truthy (Some center1) \<and> truthy (Some center2)
              then Some \<lparr> ce_id = ''cluster-conn-'' @ show_int k1 @ ''-'' @ show_int k2,
                          ce_source = center1, ce_target = center2, ce_clusters = (k1, k2) \<rparr>
              else None
          | _ \<Rightarrow> None))"

definition clusterConnectorEdges :: "(int \<Rightarrow> string option) \<Rightarrow> string list \<Rightarrow> connector_edge list" where
  "clusterConnectorEdges centers pairs = List.map_filter (connectorEdge centers) pairs"

section \<open>The clustered page: \<open>processGraphData\<close>\<close>

datatype out_edge = Flow flow_edge | Connector connector_edge

record ui_state =
  st_nodes :: "flow_node list"
  st_edges :: "out_edge list"

text \<open>
  The callback reads \<open>filters\<close>, \<open>highlightId\<close> and \<open>patterns?.circular?.count\<close> from the
  component and publishes its result with \<open>setNodes\<close> and \<open>setEdges\<close>; the published
  state is passed in and returned. The early \<open>return\<close> leaves it as it was.
\<close>

definition connectors :: "filters \<Rightarrow> string option \<Rightarrow> node list \<Rightarrow> edge list \<Rightarrow> connector_edge list" where
  "connectors f highlightId ns es =
    (let fns = filteredNodes f ns;
         fes = filteredEdges f ns es;
         cc = connectionCount fes;
         ncm = nodeClusterMap (flowNodes cc highlightId fns)
     in clusterConnectorEdges (clusterCenters cc fns) (connectedClusters ncm fes))"

definition layout :: "filters \<Rightarrow> string option \<Rightarrow> nat option \<Rightarrow> node list \<Rightarrow> edge list \<Rightarrow> ui_state" where
  "layout f highlightId circularCount ns es =
    (let fns = filteredNodes f ns;
         fes = filteredEdges f ns es;
         cc = connectionCount fes;
         fl = flowNodes cc highlightId fns;
         ncm = nodeClusterMap fl
     in \<lparr> st_nodes = fl,
          st_edges = map Flow (flowEdges circularCount ncm fes)
                     @ map Connector (connectors f highlightId ns es) \<rparr>)"

definition processGraphData ::
  "filters \<Rightarrow> string option \<Rightarrow> nat option \<Rightarrow> graph_data option \<Rightarrow> ui_state \<Rightarrow> ui_state" where
  "processGraphData f highlightId circularCount data st =
    (case data of None \<Rightarrow> st
     | Some d \<Rightarrow>
        (case nodes d of None \<Rightarrow> st
         | Some ns \<Rightarrow>
            (case edges d of None \<Rightarrow> st
             | Some es \<Rightarrow> layout f highlightId circularCount ns es)))"

section \<open>The basic page: grid placement with jitter\<close>


record basic_node =
  bn_id :: string
  bn_position :: "real \<times> real"
  bn_data :: node
  bn_highlighted :: bool

record basic_edge =
  be_id :: string
  be_source :: string
  be_target :: string
  be_animated :: bool
  be_stroke :: string
  be_strokeWidth :: real

record basic_state =
  bs_nodes :: "basic_node list"
  bs_edges :: "basic_edge list"

definition basic_flowNodes ::
  "(real \<Rightarrow> real) \<Rightarrow> (nat \<Rightarrow> real) \<Rightarrow> filters \<Rightarrow> string option \<Rightarrow> node list \<Rightarrow> basic_node list" where
  "basic_flowNodes rd rnd f highlightId ns =
    map (\<lambda>(index, n).
          \<lparr> bn_id = node_id n,
            bn_position = (rd (rd (real (index mod 8) * 220) + rd (rnd (2 * index) * 50)),
                           rd (rd (real (index div 8) * 180) + rd (rnd (2 * index + 1) * 50))),
            bn_data = n,
            bn_highlighted = highlighted highlightId n \<rparr>)
        (enumerate 0 (filter (node_visible f) ns))"

definition basic_flowEdges :: "basic_node list \<Rightarrow> edge list \<Rightarrow> basic_edge list" where
  "basic_flowEdges fl es =
    map (\<lambda>(index, e).
          \<lparr> be_id = ''e'' @ show_nat index,
            be_source = source e,
            be_target = target e,
            be_animated = suspicious e,
            be_stroke = (if suspicious e then ''#ef4444'' else ''#94a3b8''),
            be_strokeWidth =
              min (case weight e of None \<Rightarrow> 1 | Some w \<Rightarrow> if w = 0 then 1 else w) 4 \<rparr>)
        (enumerate 0 (filter (\<lambda>e. source e \<in> set (map bn_id fl) \<and> target e \<in> set (map bn_id fl)) es))"

definition basic_processGraphData ::
  "(real \<Rightarrow> real) \<Rightarrow> (nat \<Rightarrow> real) \<Rightarrow> filters \<Rightarrow> string option \<Rightarrow> graph_data option
     \<Rightarrow> basic_state \<Rightarrow> basic_state" where
  "basic_processGraphData rd rnd f highlightId data st =
    (case data of None \<Rightarrow> st
     | Some d \<Rightarrow>
        (case nodes d of None \<Rightarrow> st
         | Some ns \<Rightarrow>
            (case edges d of None \<Rightarrow> st
             | Some es \<Rightarrow>
                 \<lparr> bs_nodes = basic_flowNodes rd rnd f highlightId ns,
                   bs_edges = basic_flowEdges (basic_flowNodes rd rnd f highlightId ns) es \<rparr>)))"

section \<open>Fetching on the clustered page\<close>

text \<open>
  \<open>fetchGraphData\<close> of the clustered page replaces a missing collection by the empty
  array (\<open>graphData.nodes || []\<close>, \<open>graphData.edges || []\<close>) before it calls
  \<open>processGraphData\<close>; a missing payload is the empty object. The per-node defaults it
  fills in are already part of \<open>node\<close>. The basic page passes the payload on unchanged.
\<close>

definition normalizedData :: "graph_data option \<Rightarrow> graph_data" where
  "normalizedData payload =
    (case payload of
       None \<Rightarrow> \<lparr> nodes = Some [], edges = Some [] \<rparr>
     | Some g \<Rightarrow>
         \<lparr> nodes = Some (case nodes g of None \<Rightarrow> [] | Some ns \<Rightarrow> ns),
           edges = Some (case edges g of None \<Rightarrow> [] | Some es \<Rightarrow> es) \<rparr>)"

definition fetchGraphData ::
  "filters \<Rightarrow> string option \<Rightarrow> nat option \<Rightarrow> graph_data option \<Rightarrow> ui_state \<Rightarrow> ui_state" where
  "fetchGraphData f highlightId circularCount payload st =
    processGraphData f highlightId circularCount (Some (normalizedData payload)) st"

definition basic_fetchGraphData ::
  "(real \<Rightarrow> real) \<Rightarrow> (nat \<Rightarrow> real) \<Rightarrow> filters \<Rightarrow> string option \<Rightarrow> graph_data option
     \<Rightarrow> basic_state \<Rightarrow> basic_state" where
  "basic_fetchGraphData rd rnd f highlightId payload st =
    basic_processGraphData rd rnd f highlightId payload st"

section \<open>Notions of the specification\<close>

text \<open>
  The specification speaks of the number of visible edges touching a node, of the hub
  of a cluster (the visible member of maximal degree, the earliest one on a tie) and of
  the pairs of clusters joined by a crossing edge. These are written down from its
  words, to be compared with what the code computes.
\<close>

definition spec_touching :: "string \<Rightarrow> edge list \<Rightarrow> nat" where
  "spec_touching k fes = length (filter (\<lambda>e. source e = k \<or> target e = k) fes)"

definition self_loop_count :: "string \<Rightarrow> edge list \<Rightarrow> nat" where
  "self_loop_count k fes = length (filter (\<lambda>e. source e = k \<and> target e = k) fes)"

definition spec_hub :: "(string \<Rightarrow> nat) \<Rightarrow> node list \<Rightarrow> int \<Rightarrow> node option" where
  "spec_hub cc fns k =
    find (\<lambda>n. clusterKey n = k \<and>
               (\<forall>m\<in>set fns. clusterKey m = k \<longrightarrow> cc (node_id m) \<le> cc (node_id n))) fns"

definition missing_collection :: "graph_data option \<Rightarrow> bool" where
  "missing_collection data = (case data of None \<Rightarrow> True | Some d \<Rightarrow> nodes d = None \<or> edges d = None)"

text \<open>
  The cluster of an endpoint: \<open>cluster_of\<close> is the cluster id carried by the visible node
  with that id, \<open>group_of\<close> the group the partitioner puts it in (\<open>- 1\<close> for a node
  without a cluster id).
\<close>

definition cluster_of :: "node list \<Rightarrow> string \<Rightarrow> int option" where
  "cluster_of fns i = (case find (\<lambda>n. node_id n = i) fns of None \<Rightarrow> None | Some n \<Rightarrow> cluster_id n)"

definition group_of :: "node list \<Rightarrow> string \<Rightarrow> int option" where
  "group_of fns i = map_option clusterKey (find (\<lambda>n. node_id n = i) fns)"

definition crossing :: "(string \<Rightarrow> int option) \<Rightarrow> edge \<Rightarrow> (int \<times> int) option" where
  "crossing cl e =
    (case (cl (source e), cl (target e)) of
       (Some a, Some b) \<Rightarrow> if a \<noteq> b then Some (min a b, max a b) else None
     | _ \<Rightarrow> None)"

definition crossing_pairs :: "(string \<Rightarrow> int option) \<Rightarrow> edge list \<Rightarrow> (int \<times> int) set" where
  "crossing_pairs cl fes = set (List.map_filter (crossing cl) fes)"

text \<open>The string under which a pair of cluster ids, smaller id first, is recorded.\<close>

definition key_of :: "int \<times> int \<Rightarrow> string" where
  "key_of p = show_int (fst p) @ ''-'' @ show_int (snd p)"

section \<open>Sample graphs\<close>

definition mk_node :: "string \<Rightarrow> real \<Rightarrow> int option \<Rightarrow> node" where
  "mk_node i r c = \<lparr> node_id = i, risk_score = r, mule_suspected = False, cluster_id = c \<rparr>"

definition mk_edge :: "string \<Rightarrow> string \<Rightarrow> edge" where
  "mk_edge s t = \<lparr> source = s, target = t, suspicious = False, amount = None, weight = None \<rparr>"

definition no_filter :: filters where
  "no_filter = \<lparr> showMuleOnly = False, minRiskScore = 0, cluster = None \<rparr>"

definition scenarioA_nodes :: "node list" where
  "scenarioA_nodes = [mk_node ''a'' 0 (Some 0), mk_node ''b'' 0 (Some 0), mk_node ''c'' 0 (Some 0)]"

definition scenarioA_edges :: "edge list" where
  "scenarioA_edges = [mk_edge ''a'' ''b'', mk_edge ''a'' ''c'']"

definition one_node_graph :: "graph_data option" where
  "one_node_graph = Some \<lparr> nodes = Some [mk_node ''a'' 0 None], edges = Some [] \<rparr>"

definition missing_nodes :: "graph_data option" where
  "missing_nodes = Some \<lparr> nodes = None, edges = Some [] \<rparr>"

definition empty_graph :: "graph_data option" where
  "empty_graph = Some \<lparr> nodes = Some [], edges = Some [] \<rparr>"

definition empty_state :: ui_state where
  "empty_state = \<lparr> st_nodes = [], st_edges = [] \<rparr>"

definition basic_empty_state :: basic_state where
  "basic_empty_state = \<lparr> bs_nodes = [], bs_edges = [] \<rparr>"

text \<open>
  The rounding that changes nothing: on the sample graphs every product and sum is a
  small integer, which a double holds exactly.
\<close>

definition no_rounding :: "real \<Rightarrow> real" where
  "no_rounding x = x"

definition rnd_zero :: "nat \<Rightarrow> real" where
  "rnd_zero k = 0"


definition scenarioC_nodes :: "node list" where
  "scenarioC_nodes = [mk_node ''n10'' 10 None, mk_node ''n75'' 75 None, mk_node ''n90'' 90 None]"

definition min70 :: filters where
  "min70 = \<lparr> showMuleOnly = False, minRiskScore = 70, cluster = None \<rparr>"

definition two_cluster_nodes :: "node list" where
  "two_cluster_nodes = [mk_node ''a'' 0 (Some 0), mk_node ''b'' 0 (Some 0), mk_node ''c'' 0 (Some 1)]"

definition two_cluster_edges :: "edge list" where
  "two_cluster_edges = [mk_edge ''b'' ''c'', mk_edge ''b'' ''a'']"


definition unclustered_nodes :: "node list" where
  "unclustered_nodes = [mk_node ''a'' 0 (Some 0), mk_node ''u'' 0 None]"

definition unclustered_edges :: "edge list" where
  "unclustered_edges = [mk_edge ''a'' ''u'']"

definition negative_nodes :: "node list" where
  "negative_nodes = [mk_node ''n'' 0 (Some (- 1)), mk_node ''p'' 0 (Some 2),
                     mk_node ''x'' 0 (Some 0), mk_node ''y'' 0 (Some 1)]"

definition negative_edges :: "edge list" where
  "negative_edges = [mk_edge ''n'' ''p'']"

lemmas eval_defs =
  layout_def filteredNodes_def filteredEdges_def nodeIds_def node_visible_def
  flowNodes_def clusterEntries_def clusterGroups_def clusterKey_def Object_entries_def
  is_array_index_def layoutCluster_def sortedNodes_def connectionCount_def
  mk_node_def mk_edge_def no_filter_def Let_def

section \<open>Facts about the cluster groups\<close>

lemma clusterGroups_snoc:
  "clusterGroups (fns @ [n]) = group_push (clusterKey n) n (clusterGroups fns)"
  by (simp add: clusterGroups_def)

lemma map_of_group_push:
  "map_of (group_push k n gs) =
     (map_of gs)(k \<mapsto> (case map_of gs k of None \<Rightarrow> [n] | Some ms \<Rightarrow> ms @ [n]))"
  by (induction gs) (auto simp: fun_eq_iff)

lemma keys_group_push:
  "map fst (group_push k n gs) = (if k \<in> set (map fst gs) then map fst gs else map fst gs @ [k])"
  by (induction k n gs rule: group_push.induct) auto

lemma distinct_group_push:
  "distinct (map fst gs) \<Longrightarrow> distinct (map fst (group_push k n gs))"
  by (simp add: keys_group_push)

lemma distinct_clusterGroups: "distinct (map fst (clusterGroups fns))"
  by (induction fns rule: rev_induct) (simp_all add: clusterGroups_snoc distinct_group_push, simp add: clusterGroups_def)

lemma map_of_clusterGroups:
  "map_of (clusterGroups fns) k =
     (if k \<in> clusterKey ` set fns then Some (filter (\<lambda>n. clusterKey n = k) fns) else None)"
proof (induction fns arbitrary: k rule: rev_induct)
  case Nil
  show ?case by (simp add: clusterGroups_def)
next
  case (snoc n fns)
  have none: "clusterKey n \<notin> clusterKey ` set fns \<Longrightarrow> filter (\<lambda>m. clusterKey m = clusterKey n) fns = []"
    by (metis (mono_tags, lifting) filter_False image_eqI)
  show ?case
    using none by (auto simp: clusterGroups_snoc map_of_group_push snoc)
qed

lemma clusterGroups_iff:
  "(k, ms) \<in> set (clusterGroups fns) \<longleftrightarrow>
     k \<in> clusterKey ` set fns \<and> ms = filter (\<lambda>n. clusterKey n = k) fns"
  using map_of_clusterGroups [of fns k] map_of_eq_Some_iff [OF distinct_clusterGroups, of fns k ms]
  by (auto split: if_splits)

lemma mset_group_push:
  "mset (concat (map snd (group_push k n gs))) = add_mset n (mset (concat (map snd gs)))"
  by (induction gs) auto

lemma mset_clusterGroups: "mset (concat (map snd (clusterGroups fns))) = mset fns"
  by (induction fns rule: rev_induct) (simp_all add: clusterGroups_snoc mset_group_push, simp add: clusterGroups_def)

lemma mset_Object_entries: "mset (Object_entries gs) = mset gs"
  by (simp add: Object_entries_def)

lemma set_Object_entries: "set (Object_entries gs) = set gs"
  by (auto simp: Object_entries_def)

section \<open>Facts about sorting and the maximum scan\<close>

lemma hd_insort_key:
  "hd (insort_key f x ys) = (if ys = [] \<or> f x \<le> f (hd ys) then x else hd ys)"
  by (cases ys) auto

lemma sort_key_Nil_iff: "sort_key f xs = [] \<longleftrightarrow> xs = []"
  by (metis length_sort list.size(3) length_0_conv)

lemma hd_sort_key_Cons:
  "hd (sort_key f (x # xs)) =
     (if xs = [] \<or> f x \<le> f (hd (sort_key f xs)) then x else hd (sort_key f xs))"
  by (simp add: hd_insort_key sort_key_Nil_iff)

lemma hd_sort_key_min:
  "xs \<noteq> [] \<Longrightarrow> hd (sort_key f xs) \<in> set xs \<and> (\<forall>m\<in>set xs. f (hd (sort_key f xs)) \<le> f m)"
proof (induction xs)
  case Nil
  then show ?case by simp
next
  case (Cons x xs)
  show ?case
  proof (cases "xs = []")
    case True
    then show ?thesis by simp
  next
    case False
    with Cons.IH have ih: "hd (sort_key f xs) \<in> set xs" "\<forall>m\<in>set xs. f (hd (sort_key f xs)) \<le> f m"
      by auto
    show ?thesis
      unfolding hd_sort_key_Cons using False ih by (auto intro: order_trans)
  qed
qed

lemma find_hd_sort_key:
  "xs \<noteq> [] \<Longrightarrow> find (\<lambda>n. \<forall>m\<in>set xs. f n \<le> f m) xs = Some (hd (sort_key f xs))"
proof (induction xs)
  case Nil
  then show ?case by simp
next
  case (Cons x xs)
  show ?case
  proof (cases "xs = []")
    case True
    then show ?thesis by simp
  next
    case False
    let ?h = "hd (sort_key f xs)"
    from hd_sort_key_min [OF False, of f]
    have hin: "?h \<in> set xs" and hmin: "\<forall>m\<in>set xs. f ?h \<le> f m" by auto
    show ?thesis
    proof (cases "f x \<le> f ?h")
      case True
      then have "\<forall>m\<in>set xs. f x \<le> f m" using hmin by (auto intro: order_trans)
      then show ?thesis using True False by (simp add: hd_insort_key sort_key_Nil_iff)
    next
      case lt: False
      have cong: "find (\<lambda>n. \<forall>m\<in>set (x # xs). f n \<le> f m) xs = find (\<lambda>n. \<forall>m\<in>set xs. f n \<le> f m) xs"
      proof (rule find_cong [OF refl])
        fix n assume "n \<in> set xs"
        show "(\<forall>m\<in>set (x # xs). f n \<le> f m) = (\<forall>m\<in>set xs. f n \<le> f m)"
        proof
          assume "\<forall>m\<in>set (x # xs). f n \<le> f m"
          then show "\<forall>m\<in>set xs. f n \<le> f m" by simp
        next
          assume a: "\<forall>m\<in>set xs. f n \<le> f m"
          then have "f n \<le> f ?h" using hin by blast
          moreover have "f ?h \<le> f x" using lt by simp
          ultimately have "f n \<le> f x" by (rule order_trans)
          then show "\<forall>m\<in>set (x # xs). f n \<le> f m" using a by simp
        qed
      qed
      have notx: "\<not> (\<forall>m\<in>set (x # xs). f x \<le> f m)" using lt hin by auto
      have "find (\<lambda>n. \<forall>m\<in>set (x # xs). f n \<le> f m) (x # xs)
              = find (\<lambda>n. \<forall>m\<in>set (x # xs). f n \<le> f m) xs"
        using notx by (simp only: find.simps if_False)
      also have "\<dots> = Some ?h" using cong Cons.IH [OF False] by simp
      also have "?h = hd (sort_key f (x # xs))"
        using lt False by (simp add: hd_insort_key sort_key_Nil_iff)
      finally show ?thesis .
    qed
  qed
qed

lemma find_append:
  "find P (xs @ ys) = (case find P xs of None \<Rightarrow> find P ys | Some v \<Rightarrow> Some v)"
  by (induction xs) auto

lemma find_SomeD: "find P xs = Some r \<Longrightarrow> r \<in> set xs \<and> P r"
  by (induction xs) (auto split: if_splits)

lemma find_foldl_best:
  fixes d :: "'a \<Rightarrow> nat"
  shows "find (\<lambda>n. \<forall>m\<in>set (b # xs). d m \<le> d n) (b # xs) =
           Some (foldl (\<lambda>best n. if d n > d best then n else best) b xs)"
proof (induction xs rule: rev_induct)
  case Nil
  show ?case by simp
next
  case (snoc x xs)
  let ?r = "foldl (\<lambda>best n. if d n > d best then n else best) b xs"
  from snoc have fr: "find (\<lambda>n. \<forall>m\<in>set (b # xs). d m \<le> d n) (b # xs) = Some ?r" .
  then have rin: "?r \<in> set (b # xs)" and rmax: "\<forall>m\<in>set (b # xs). d m \<le> d ?r"
    using find_SomeD [OF fr] by blast+
  let ?P' = "\<lambda>n. \<forall>m\<in>set (b # xs @ [x]). d m \<le> d n"
  have app: "find ?P' (b # xs @ [x]) =
      (case find ?P' (b # xs) of None \<Rightarrow> find ?P' [x] | Some v \<Rightarrow> Some v)"
    using find_append [of ?P' "b # xs" "[x]"] by simp
  show ?case
  proof (cases "d x > d ?r")
    case True
    have "find ?P' (b # xs) = None"
      unfolding find_None_iff using True rmax by (auto simp: not_le intro: le_less_trans)
    moreover have "?P' x" using True rmax by (auto intro: less_imp_le le_less_trans order_trans)
    ultimately show ?thesis using app True by simp
  next
    case False
    have "find ?P' (b # xs) = find (\<lambda>n. \<forall>m\<in>set (b # xs). d m \<le> d n) (b # xs)"
    proof (rule find_cong [OF refl])
      fix n assume "n \<in> set (b # xs)"
      show "?P' n = (\<forall>m\<in>set (b # xs). d m \<le> d n)"
      proof
        assume "?P' n"
        then show "\<forall>m\<in>set (b # xs). d m \<le> d n" by simp
      next
        assume a: "\<forall>m\<in>set (b # xs). d m \<le> d n"
        then have "d ?r \<le> d n" using rin by blast
        moreover have "d x \<le> d ?r" using False by simp
        ultimately have "d x \<le> d n" by (rule order_trans [rotated])
        then show "?P' n" using a by simp
      qed
    qed
    then show ?thesis using app fr False by simp
  qed
qed

section \<open>Facts about the hub and the flow nodes of one cluster\<close>

lemma sortedNodes_Nil_iff: "sortedNodes cc ms = [] \<longleftrightarrow> ms = []"
  by (simp add: sortedNodes_def sort_key_Nil_iff)

lemma mset_sortedNodes: "mset (sortedNodes cc ms) = mset ms"
  by (simp add: sortedNodes_def)

lemma length_sortedNodes: "length (sortedNodes cc ms) = length ms"
  by (simp add: sortedNodes_def)

lemma find_hub_sortedNodes:
  assumes "ms \<noteq> []"
  shows "find (\<lambda>n. \<forall>m\<in>set ms. cc (node_id m) \<le> cc (node_id n)) ms = Some (hd (sortedNodes cc ms))"
  using find_hd_sort_key [OF assms, of "\<lambda>n. - int (cc (node_id n))"]
  by (simp add: sortedNodes_def)

lemma find_hub_centerNode:
  assumes "ms \<noteq> []"
  shows "find (\<lambda>n. \<forall>m\<in>set ms. cc (node_id m) \<le> cc (node_id n)) ms = centerNode cc ms"
proof -
  obtain b xs where ms: "ms = b # xs" using assms by (cases ms) auto
  have "foldl (\<lambda>best n. if cc (node_id n) > cc (node_id best) then n else best) b (b # xs)
          = foldl (\<lambda>best n. if cc (node_id n) > cc (node_id best) then n else best) b xs"
    by simp
  then show ?thesis
    using find_foldl_best [where d = "\<lambda>n. cc (node_id n)" and b = b and xs = xs] by (simp add: centerNode_def ms)
qed

lemma centerNode_eq_hd_sortedNodes:
  "ms \<noteq> [] \<Longrightarrow> centerNode cc ms = Some (hd (sortedNodes cc ms))"
  using find_hub_centerNode [of ms cc] find_hub_sortedNodes [of ms cc] by simp

lemma map_fn_data_layoutCluster:
  "map fn_data (layoutCluster cc h numClusters clusterIdx ms) = sortedNodes cc ms"
  by (rule nth_equalityI)
     (simp_all add: layoutCluster_def Let_def nth_enumerate_eq length_sortedNodes)

lemma length_layoutCluster:
  "length (layoutCluster cc h numClusters clusterIdx ms) = length ms"
  by (simp add: layoutCluster_def Let_def length_sortedNodes)

lemma layoutCluster_nth:
  assumes "i < length ms"
  shows "layoutCluster cc h numClusters clusterIdx ms ! i =
    \<lparr> fn_id = node_id (sortedNodes cc ms ! i),
      fn_position = node_position (centerX clusterIdx numClusters (length ms))
                       (centerY clusterIdx numClusters (length ms)) (int i) (int (length ms)),
      fn_data = sortedNodes cc ms ! i,
      fn_highlighted = highlighted h (sortedNodes cc ms ! i),
      fn_degree = cc (node_id (sortedNodes cc ms ! i)),
      fn_clusterColor = clusterColor clusterIdx,
      fn_zIndex = zIndex (sortedNodes cc ms ! i) \<rparr>"
  using assms
  by (simp add: layoutCluster_def Let_def length_sortedNodes nth_enumerate_eq clusterMeta_def)

lemma fn_id_layoutCluster:
  "fn \<in> set (layoutCluster cc h numClusters clusterIdx ms) \<Longrightarrow> fn_id fn = node_id (fn_data fn) \<and> fn_degree fn = cc (node_id (fn_data fn))"
  by (auto simp: layoutCluster_def Let_def)

section \<open>Facts about placement and the flow nodes\<close>

lemma ring_0: "ring 0 = 0"
  by (simp add: ring_def)

lemma ring_ge_1: "1 \<le> idx \<Longrightarrow> 1 \<le> ring idx"
  by (simp add: ring_def pos_imp_zdiv_nonneg_iff)

lemma nodesInRing_pos:
  assumes "0 \<le> idx" "idx < clusterSize" "\<not> (idx = 0 \<and> clusterSize > 1)"
  shows "1 \<le> nodesInRing idx clusterSize"
proof (cases "idx = 0")
  case True
  with assms have "clusterSize = 1" by simp
  with True show ?thesis by (simp add: nodesInRing_def ring_0)
next
  case False
  with assms have "1 \<le> idx" by simp
  have "(idx - 1) div 8 * 8 \<le> idx - 1"
    by presburger
  then show ?thesis using assms by (simp add: nodesInRing_def ring_def)
qed

lemma angle_defined:
  assumes "0 \<le> idx" "idx < clusterSize" "\<not> (idx = 0 \<and> clusterSize > 1)"
  shows "angle idx clusterSize \<noteq> None"
  using nodesInRing_pos [OF assms] by (simp add: angle_def js_div_def)

lemma node_position_defined:
  assumes "0 \<le> idx" "idx < clusterSize"
  shows "node_position cx cy idx clusterSize \<noteq> None"
  using angle_defined [OF assms] by (auto simp: node_position_def)

lemma node_position_hub:
  assumes "0 < clusterSize"
  shows "node_position cx cy 0 clusterSize = Some (cx, cy)"
proof (cases "clusterSize > 1")
  case True
  then show ?thesis by (simp add: node_position_def)
next
  case False
  with assms have one: "clusterSize = 1" by simp
  have "angle 0 1 \<noteq> None" by (rule angle_defined) simp_all
  then obtain a where "angle 0 1 = Some a" by auto
  then show ?thesis by (simp add: node_position_def one ringRadius_def ring_0)
qed

lemma off_center:
  fixes r a :: real
  assumes "r \<noteq> 0"
  shows "(cx + r * cos a, cy + r * sin a) \<noteq> (cx, cy)"
proof
  assume "(cx + r * cos a, cy + r * sin a) = (cx, cy)"
  then have "cos a = 0" "sin a = 0" using assms by auto
  then show False using sin_cos_squared_add [of a] by simp
qed

lemma node_position_not_center:
  assumes "1 \<le> idx"
  shows "node_position cx cy idx clusterSize \<noteq> Some (cx, cy)"
proof -
  have "ringRadius idx \<noteq> 0" using ring_ge_1 [OF assms] by (simp add: ringRadius_def)
  then show ?thesis using assms off_center by (auto simp: node_position_def)
qed

lemma set_clusterEntries:
  "(clusterIdx, k, ms) \<in> set (clusterEntries fns) \<Longrightarrow> (k, ms) \<in> set (clusterGroups fns)"
proof -
  assume "(clusterIdx, k, ms) \<in> set (clusterEntries fns)"
  then have "(k, ms) \<in> set (Object_entries (clusterGroups fns))"
    by (auto simp: clusterEntries_def in_set_enumerate_eq dest: nth_mem)
  then show ?thesis by (simp add: set_Object_entries)
qed

lemma clusterEntries_exists:
  "(k, ms) \<in> set (clusterGroups fns) \<Longrightarrow> \<exists>clusterIdx. (clusterIdx, k, ms) \<in> set (clusterEntries fns)"
proof -
  assume "(k, ms) \<in> set (clusterGroups fns)"
  then have "(k, ms) \<in> set (Object_entries (clusterGroups fns))" by (simp add: set_Object_entries)
  then obtain i where "i < length (Object_entries (clusterGroups fns))"
      "Object_entries (clusterGroups fns) ! i = (k, ms)"
    by (auto simp: in_set_conv_nth)
  then have "(i, k, ms) \<in> set (clusterEntries fns)"
    by (simp add: clusterEntries_def in_set_enumerate_eq)
  then show ?thesis ..
qed

lemma map_snd_clusterEntries: "map snd (clusterEntries fns) = Object_entries (clusterGroups fns)"
  by (simp add: clusterEntries_def)

lemma group_nonempty: "(k, ms) \<in> set (clusterGroups fns) \<Longrightarrow> ms \<noteq> []"
  by (auto simp: clusterGroups_iff filter_empty_conv)

lemma set_flowNodes:
  "set (flowNodes cc h fns) =
     (\<Union>(clusterIdx, k, ms) \<in> set (clusterEntries fns).
         set (layoutCluster cc h (length (clusterGroups fns)) clusterIdx ms))"
  by (auto simp: flowNodes_def)

lemma image_mset_layoutCluster:
  "image_mset fn_data (mset (layoutCluster cc h num clusterIdx ms)) = mset ms"
  using map_fn_data_layoutCluster [of cc h num clusterIdx ms] mset_sortedNodes [of cc ms]
  by (metis mset_map)

lemma mset_concat_map_data:
  "mset (map fn_data (concat (map (\<lambda>(clusterIdx, k, ms). layoutCluster cc h num clusterIdx ms) es)))
     = mset (concat (map (\<lambda>e. snd (snd e)) es))"
  by (induction es) (auto simp: image_mset_layoutCluster)

lemma mset_flowNodes_data: "mset (map fn_data (flowNodes cc h fns)) = mset fns"
proof -
  have "mset (map fn_data (flowNodes cc h fns))
          = mset (concat (map (\<lambda>e. snd (snd e)) (clusterEntries fns)))"
    unfolding flowNodes_def by (rule mset_concat_map_data)
  also have "map (\<lambda>e. snd (snd e)) (clusterEntries fns) = map snd (Object_entries (clusterGroups fns))"
  proof -
    have "map (\<lambda>e. snd (snd e)) (clusterEntries fns) = map snd (map snd (clusterEntries fns))"
      by simp
    then show ?thesis by (simp only: map_snd_clusterEntries)
  qed
  also have "mset (concat (map snd (Object_entries (clusterGroups fns))))
          = mset (concat (map snd (clusterGroups fns)))"
  proof -
    have "mset (map snd (Object_entries (clusterGroups fns))) = mset (map snd (clusterGroups fns))"
      by (simp only: mset_map mset_Object_entries)
    then show ?thesis by (metis mset_concat sum_mset_sum_list mset_map)
  qed
  also have "\<dots> = mset fns" by (rule mset_clusterGroups)
  finally show ?thesis .
qed

lemma fn_id_flowNodes:
  "fn \<in> set (flowNodes cc h fns) \<Longrightarrow> fn_id fn = node_id (fn_data fn) \<and> fn_degree fn = cc (node_id (fn_data fn))"
  by (auto simp: set_flowNodes dest: fn_id_layoutCluster)

lemma map_fn_id_flowNodes:
  "map fn_id (flowNodes cc h fns) = map node_id (map fn_data (flowNodes cc h fns))"
  by (simp add: fn_id_flowNodes)

section \<open>Facts about filtering, degrees and positions\<close>

lemma node_visible_iff:
  "node_visible f n \<longleftrightarrow>
     (showMuleOnly f \<longrightarrow> mule_suspected n) \<and> minRiskScore f \<le> risk_score n \<and>
     (\<forall>c. cluster f = Some c \<longrightarrow> cluster_id n = Some c)"
  by (auto simp: node_visible_def split: option.splits)

lemma set_flowNodes_data: "fn_data ` set (flowNodes cc h fns) = set fns"
  using mset_flowNodes_data [of cc h fns] by (metis set_map set_mset_mset)

lemma st_nodes_layout:
  "st_nodes (layout f h cnt ns es) =
     flowNodes (connectionCount (filteredEdges f ns es)) h (filteredNodes f ns)"
  by (simp add: layout_def Let_def)

lemma endpoints_flowEdges:
  "map (\<lambda>fe. (fe_source fe, fe_target fe)) (flowEdges cnt ncm fes) = map (\<lambda>e. (source e, target e)) fes"
  by (rule nth_equalityI) (simp_all add: flowEdges_def flowEdge_def Let_def nth_enumerate_eq)

lemma connectionCount_snoc:
  "connectionCount (fes @ [e]) =
     (let cc = connectionCount fes; cc1 = cc(source e := cc (source e) + 1)
      in cc1(target e := cc1 (target e) + 1))"
  by (simp add: connectionCount_def Let_def)

lemma connectionCount_endpoints:
  "connectionCount fes k =
     length (filter (\<lambda>e. source e = k) fes) + length (filter (\<lambda>e. target e = k) fes)"
proof (induction fes arbitrary: k rule: rev_induct)
  case Nil
  show ?case by (simp add: connectionCount_def)
next
  case (snoc e fes)
  show ?case by (simp add: connectionCount_snoc Let_def snoc)
qed

lemma touching_plus_self_loop:
  "length (filter (\<lambda>e. source e = k) fes) + length (filter (\<lambda>e. target e = k) fes)
     = spec_touching k fes + self_loop_count k fes"
  by (induction fes) (auto simp: spec_touching_def self_loop_count_def)

lemma flowNodes_position_defined:
  assumes "fn \<in> set (flowNodes cc h fns)"
  shows "fn_position fn \<noteq> None"
proof -
  from assms obtain clusterIdx k ms where
    e: "(clusterIdx, k, ms) \<in> set (clusterEntries fns)"
    and fn: "fn \<in> set (layoutCluster cc h (length (clusterGroups fns)) clusterIdx ms)"
    by (auto simp: set_flowNodes)
  from fn obtain i where i: "i < length ms"
    and at: "layoutCluster cc h (length (clusterGroups fns)) clusterIdx ms ! i = fn"
    by (auto simp: in_set_conv_nth length_layoutCluster)
  have "node_position (centerX clusterIdx (length (clusterGroups fns)) (length ms))
          (centerY clusterIdx (length (clusterGroups fns)) (length ms)) (int i) (int (length ms)) \<noteq> None"
    by (rule node_position_defined) (use i in simp_all)
  then show ?thesis using layoutCluster_nth [OF i, of cc h "length (clusterGroups fns)" clusterIdx] at
    by (metis flow_node.select_convs(2))
qed

section \<open>Filtering, degrees and missing input\<close>

text \<open>
  Claim C2. Every node of the published layout satisfies the filter: its risk score is
  at least \<open>minRiskScore\<close>, it is a suspected mule when \<open>showMuleOnly\<close> is set, and it
  carries the selected cluster id when a cluster is selected. With \<open>minRiskScore = 70\<close>
  and nodes scoring 10, 75 and 90 the published nodes are exactly the two scoring 75 and
  90. The visible edges are exactly the input edges with both endpoints among the
  published nodes, and the published flow edges have the same endpoints in the same
  order.
\<close>

theorem filter_correct:
  "(\<forall>fn\<in>set (st_nodes (layout f h cnt ns es)).
      minRiskScore f \<le> risk_score (fn_data fn)
      \<and> (showMuleOnly f \<longrightarrow> mule_suspected (fn_data fn))
      \<and> (\<forall>c. cluster f = Some c \<longrightarrow> cluster_id (fn_data fn) = Some c))
   \<and> mset (map fn_data (st_nodes (layout (f\<lparr>showMuleOnly := False, minRiskScore := 70, cluster := None\<rparr>)
           h cnt [a\<lparr>risk_score := 10\<rparr>, b\<lparr>risk_score := 75\<rparr>, c\<lparr>risk_score := 90\<rparr>] es)))
        = {# b\<lparr>risk_score := 75\<rparr>, c\<lparr>risk_score := 90\<rparr> #}
   \<and> filteredEdges f ns es =
        filter (\<lambda>e. source e \<in> node_id ` fn_data ` set (st_nodes (layout f h cnt ns es))
                 \<and> target e \<in> node_id ` fn_data ` set (st_nodes (layout f h cnt ns es))) es
   \<and> map (\<lambda>fe. (fe_source fe, fe_target fe))
          (flowEdges cnt (nodeClusterMap (st_nodes (layout f h cnt ns es))) (filteredEdges f ns es))
        = map (\<lambda>e. (source e, target e)) (filteredEdges f ns es)"
proof -
  have vis: "fn_data ` set (st_nodes (layout f h cnt ns es)) = set (filteredNodes f ns)"
    by (simp add: st_nodes_layout set_flowNodes_data)
  have a: "\<forall>fn\<in>set (st_nodes (layout f h cnt ns es)).
      minRiskScore f \<le> risk_score (fn_data fn)
      \<and> (showMuleOnly f \<longrightarrow> mule_suspected (fn_data fn))
      \<and> (\<forall>c. cluster f = Some c \<longrightarrow> cluster_id (fn_data fn) = Some c)"
  proof
    fix fn assume "fn \<in> set (st_nodes (layout f h cnt ns es))"
    then have "fn_data fn \<in> set (filteredNodes f ns)" using vis by blast
    then have "node_visible f (fn_data fn)" by (simp add: filteredNodes_def)
    then show "minRiskScore f \<le> risk_score (fn_data fn)
      \<and> (showMuleOnly f \<longrightarrow> mule_suspected (fn_data fn))
      \<and> (\<forall>c. cluster f = Some c \<longrightarrow> cluster_id (fn_data fn) = Some c)"
      by (simp add: node_visible_iff)
  qed
  have b: "mset (map fn_data (st_nodes (layout (f\<lparr>showMuleOnly := False, minRiskScore := 70, cluster := None\<rparr>)
           h cnt [a\<lparr>risk_score := 10\<rparr>, b\<lparr>risk_score := 75\<rparr>, c\<lparr>risk_score := 90\<rparr>] es)))
        = {# b\<lparr>risk_score := 75\<rparr>, c\<lparr>risk_score := 90\<rparr> #}"
    unfolding st_nodes_layout mset_flowNodes_data
    by (simp add: filteredNodes_def node_visible_def)
  have c: "filteredEdges f ns es =
        filter (\<lambda>e. source e \<in> node_id ` fn_data ` set (st_nodes (layout f h cnt ns es))
                 \<and> target e \<in> node_id ` fn_data ` set (st_nodes (layout f h cnt ns es))) es"
    unfolding vis by (simp add: filteredEdges_def nodeIds_def)
  show ?thesis using a b c endpoints_flowEdges by blast
qed

theorem filter_correct_witness:
  "hd (st_nodes (layout min70 None None scenarioC_nodes [])) \<in> set (st_nodes (layout min70 None None scenarioC_nodes []))
   \<and> 70 \<le> risk_score (fn_data (hd (st_nodes (layout min70 None None scenarioC_nodes []))))"
proof -
  let ?X = "st_nodes (layout min70 None None scenarioC_nodes [])"
  have ne: "hd ?X \<in> set ?X"
    by (simp add: eval_defs min70_def scenarioC_nodes_def)
  from filter_correct [of min70 None None scenarioC_nodes "[]"]
  have "\<forall>fn\<in>set ?X. minRiskScore min70 \<le> risk_score (fn_data fn)" by blast
  with ne have "minRiskScore min70 \<le> risk_score (fn_data (hd ?X))" by blast
  with ne show ?thesis by (simp add: min70_def)
qed

text \<open>
  Claim C7, as stated, fails on a self-loop: for the single node \<open>a\<close> with the edge
  \<open>a \<rightarrow> a\<close> the computed degree is 2, while one visible edge touches \<open>a\<close>.
\<close>

theorem degree_selfloop_counterexample:
  "map fn_degree (st_nodes (layout no_filter None None [mk_node ''a'' 0 None] [mk_edge ''a'' ''a''])) = [2]
   \<and> spec_touching ''a'' (filteredEdges no_filter [mk_node ''a'' 0 None] [mk_edge ''a'' ''a'']) = 1"
  by (simp add: eval_defs spec_touching_def)

text \<open>
  Claim C7, amended. The degree published with every flow node is the connection count
  of its id, and the connection count of an id is the number of edge endpoints at it:
  the number of visible edges touching it plus the number of its self-loop edges, so a
  self-loop counts twice. Without a self-loop at the node the degree is the number of
  visible edges touching it. Whatever the edges are, every published node gets a
  position.
\<close>

theorem degree_counts_endpoints:
  "(\<forall>fn\<in>set (st_nodes (layout f h cnt ns es)).
      fn_degree fn = connectionCount (filteredEdges f ns es) (fn_id fn) \<and> fn_position fn \<noteq> None)
   \<and> connectionCount fes k = spec_touching k fes + self_loop_count k fes
   \<and> (self_loop_count k fes = 0 \<longrightarrow> connectionCount fes k = spec_touching k fes)"
  by (auto simp: st_nodes_layout connectionCount_endpoints touching_plus_self_loop
        dest: fn_id_flowNodes flowNodes_position_defined)

theorem degree_counts_endpoints_witness:
  "map fn_degree (st_nodes (layout no_filter None None [mk_node ''a'' 0 None, mk_node ''b'' 0 None]
       [mk_edge ''a'' ''a'', mk_edge ''a'' ''b''])) = [3, 1]
   \<and> self_loop_count ''b'' [mk_edge ''a'' ''a'', mk_edge ''a'' ''b''] = 0
   \<and> connectionCount [mk_edge ''a'' ''a'', mk_edge ''a'' ''b''] ''b''
       = spec_touching ''b'' [mk_edge ''a'' ''a'', mk_edge ''a'' ''b'']"
  using degree_counts_endpoints [of no_filter None None "[mk_node ''a'' 0 None, mk_node ''b'' 0 None]"
      "[mk_edge ''a'' ''a'', mk_edge ''a'' ''b'']" "[mk_edge ''a'' ''a'', mk_edge ''a'' ''b'']" "''b''"]
  by (simp add: eval_defs self_loop_count_def)

text \<open>
  Claim C9, as stated, fails: after a one-node graph has been published, a payload
  without its node collection leaves that node published on both pages, whereas an
  empty graph clears the state.
\<close>

theorem missing_input_counterexample:
  "st_nodes (processGraphData no_filter None None missing_nodes
       (processGraphData no_filter None None one_node_graph empty_state)) \<noteq> []
   \<and> bs_nodes (basic_fetchGraphData no_rounding rnd_zero no_filter None missing_nodes
       (basic_fetchGraphData no_rounding rnd_zero no_filter None one_node_graph basic_empty_state)) \<noteq> []
   \<and> processGraphData no_filter None None empty_graph
       (processGraphData no_filter None None one_node_graph empty_state) = empty_state"
  by (simp add: processGraphData_def basic_fetchGraphData_def basic_processGraphData_def
        basic_flowNodes_def basic_flowEdges_def connectors_def clusterConnectorEdges_def
        connectedClusters_def flowEdges_def map_filter_simps
        missing_nodes_def one_node_graph_def empty_graph_def empty_state_def eval_defs)

text \<open>
  Claim C9, amended. Given a payload without its node or edge collection,
  \<open>processGraphData\<close> of either page returns without publishing anything: the published
  nodes and edges stay what they were (empty before the first successful load). The
  fetch step of the clustered page puts an empty array in place of a missing
  collection, and a graph without nodes publishes the empty layout.
\<close>

theorem missing_input_keeps_state:
  "(missing_collection data \<longrightarrow>
      processGraphData f h cnt data st = st \<and> basic_processGraphData rd rnd f h data bst = bst)
   \<and> \<not> missing_collection (Some (normalizedData payload))
   \<and> ((payload = None \<or> (\<exists>g. payload = Some g \<and> nodes g = None)) \<longrightarrow>
        fetchGraphData f h cnt payload st = empty_state)"
proof -
  have a: "missing_collection data \<longrightarrow>
      processGraphData f h cnt data st = st \<and> basic_processGraphData rd rnd f h data bst = bst"
    by (auto simp: missing_collection_def processGraphData_def basic_processGraphData_def
          split: option.splits)
  have b: "\<not> missing_collection (Some (normalizedData payload))"
    by (simp add: missing_collection_def normalizedData_def split: option.splits)
  have empty: "layout f h cnt [] es = empty_state" for es
    by (simp add: connectors_def clusterConnectorEdges_def connectedClusters_def flowEdges_def
          map_filter_simps empty_state_def layout_def filteredNodes_def filteredEdges_def
          nodeIds_def flowNodes_def clusterEntries_def clusterGroups_def Object_entries_def
          connectionCount_def Let_def)
  have c: "(payload = None \<or> (\<exists>g. payload = Some g \<and> nodes g = None)) \<longrightarrow>
        fetchGraphData f h cnt payload st = empty_state"
    by (auto simp: fetchGraphData_def processGraphData_def normalizedData_def empty
          split: option.splits)
  show ?thesis using a b c by blast
qed

theorem missing_input_keeps_state_witness:
  "missing_collection missing_nodes
   \<and> processGraphData no_filter None None missing_nodes empty_state = empty_state
   \<and> fetchGraphData no_filter None None missing_nodes empty_state = empty_state"
  using missing_input_keeps_state [of missing_nodes no_filter None None empty_state no_rounding rnd_zero
      basic_empty_state missing_nodes]
  by (simp add: missing_collection_def missing_nodes_def)

section \<open>Facts about cluster entries, hubs and centres\<close>

lemma distinct_keys_Object_entries:
  "distinct (map fst (Object_entries gs)) = distinct (map fst gs)"
proof -
  have "mset (map fst (Object_entries gs)) = mset (map fst gs)"
    by (simp only: mset_map mset_Object_entries)
  then show ?thesis by (rule mset_eq_imp_distinct_iff)
qed

lemma keys_clusterEntries:
  "map (\<lambda>e. fst (snd e)) (clusterEntries fns) = map fst (Object_entries (clusterGroups fns))"
proof -
  have "map (\<lambda>e. fst (snd e)) (clusterEntries fns) = map fst (map snd (clusterEntries fns))"
    by simp
  then show ?thesis by (simp only: map_snd_clusterEntries)
qed

lemma distinct_keys_clusterEntries: "distinct (map (\<lambda>e. fst (snd e)) (clusterEntries fns))"
  by (simp only: keys_clusterEntries distinct_keys_Object_entries distinct_clusterGroups)

lemma entries_unique:
  assumes "(i, k, ms) \<in> set (clusterEntries fns)" "(i', k, ms') \<in> set (clusterEntries fns)"
  shows "i = i' \<and> ms = ms'"
proof -
  have "inj_on (\<lambda>e. fst (snd e)) (set (clusterEntries fns))"
    using distinct_keys_clusterEntries [of fns] by (simp add: distinct_map)
  from inj_onD [OF this _ assms] show ?thesis by simp
qed

lemma entry_members:
  "(i, k, ms) \<in> set (clusterEntries fns) \<Longrightarrow> ms = filter (\<lambda>n. clusterKey n = k) fns \<and> ms \<noteq> []"
  using set_clusterEntries [of i k ms fns] group_nonempty [of k ms fns]
  by (simp add: clusterGroups_iff)

lemma flowNodes_cluster:
  assumes "fn \<in> set (flowNodes cc h fns)"
  obtains clusterIdx ms i where
    "(clusterIdx, clusterKey (fn_data fn), ms) \<in> set (clusterEntries fns)"
    "i < length ms"
    "fn = layoutCluster cc h (length (clusterGroups fns)) clusterIdx ms ! i"
proof -
  from assms obtain clusterIdx k ms where
    e: "(clusterIdx, k, ms) \<in> set (clusterEntries fns)"
    and fn: "fn \<in> set (layoutCluster cc h (length (clusterGroups fns)) clusterIdx ms)"
    by (auto simp: set_flowNodes)
  from fn obtain i where i: "i < length ms"
    and at: "layoutCluster cc h (length (clusterGroups fns)) clusterIdx ms ! i = fn"
    by (auto simp: in_set_conv_nth length_layoutCluster)
  have "fn_data fn \<in> set (sortedNodes cc ms)"
    using fn map_fn_data_layoutCluster [of cc h "length (clusterGroups fns)" clusterIdx ms]
    by (metis image_eqI list.set_map)
  then have "fn_data fn \<in> set ms" using mset_sortedNodes [of cc ms] by (metis set_mset_mset)
  then have "clusterKey (fn_data fn) = k" using entry_members [OF e] by auto
  with e i at that show ?thesis by blast
qed

lemma layoutCluster_in_flowNodes:
  assumes "(clusterIdx, k, ms) \<in> set (clusterEntries fns)" "i < length ms"
  shows "layoutCluster cc h (length (clusterGroups fns)) clusterIdx ms ! i \<in> set (flowNodes cc h fns)"
  using assms by (auto simp: set_flowNodes length_layoutCluster intro!: bexI [of _ "(clusterIdx, k, ms)"])

lemma hub_at_center:
  assumes "ms \<noteq> []"
  shows "fn_position (layoutCluster cc h num clusterIdx ms ! 0)
           = Some (centerX clusterIdx num (length ms), centerY clusterIdx num (length ms))"
    and "fn_data (layoutCluster cc h num clusterIdx ms ! 0) = hd (sortedNodes cc ms)"
proof -
  have len: "0 < length ms" using assms by simp
  show "fn_position (layoutCluster cc h num clusterIdx ms ! 0)
           = Some (centerX clusterIdx num (length ms), centerY clusterIdx num (length ms))"
    using len by (simp add: layoutCluster_nth node_position_hub)
  have "sortedNodes cc ms \<noteq> []" using assms by (simp add: sortedNodes_Nil_iff)
  then show "fn_data (layoutCluster cc h num clusterIdx ms ! 0) = hd (sortedNodes cc ms)"
    using len by (simp add: layoutCluster_nth hd_conv_nth)
qed

lemma only_hub_at_center:
  assumes "i < length ms"
    and "fn_position (layoutCluster cc h num clusterIdx ms ! i)
           = Some (centerX clusterIdx num (length ms), centerY clusterIdx num (length ms))"
  shows "i = 0"
proof (rule ccontr)
  assume "i \<noteq> 0"
  then have "1 \<le> int i" by simp
  from node_position_not_center [OF this] assms show False
    by (simp add: layoutCluster_nth)
qed

lemma find_filter: "find P (filter Q xs) = find (\<lambda>x. Q x \<and> P x) xs"
  by (induction xs) auto

lemma spec_hub_entry:
  assumes "(clusterIdx, k, ms) \<in> set (clusterEntries fns)"
  shows "spec_hub cc fns k = Some (hd (sortedNodes cc ms))"
proof -
  have ms: "ms = filter (\<lambda>n. clusterKey n = k) fns"
    using entry_members [OF assms] by (rule conjunct1)
  have ne: "ms \<noteq> []"
    using entry_members [OF assms] by (rule conjunct2)
  have "spec_hub cc fns k = find (\<lambda>n. \<forall>m\<in>set ms. cc (node_id m) \<le> cc (node_id n)) ms"
    unfolding spec_hub_def ms find_filter by (rule find_cong) auto
  then show ?thesis using find_hub_sortedNodes [OF ne, of cc] by simp
qed

lemma foldl_upd_other:
  "k \<notin> set (map (\<lambda>e. fst (snd e)) xs) \<Longrightarrow>
     foldl (\<lambda>m (i, k', v). (case g i v of None \<Rightarrow> m | Some c \<Rightarrow> m(k' \<mapsto> p c))) m0 xs k = m0 k"
  by (induction xs arbitrary: m0) (auto split: option.splits)

lemma foldl_upd_lookup:
  assumes "distinct (map (\<lambda>e. fst (snd e)) xs)" "(i, k, v) \<in> set xs"
  shows "foldl (\<lambda>m (i, k', v). (case g i v of None \<Rightarrow> m | Some c \<Rightarrow> m(k' \<mapsto> p c))) m0 xs k
           = (case g i v of None \<Rightarrow> m0 k | Some c \<Rightarrow> Some (p c))"
  using assms
proof (induction xs arbitrary: m0)
  case Nil
  then show ?case by simp
next
  case (Cons x xs)
  show ?case
  proof (cases "x = (i, k, v)")
    case True
    then have "k \<notin> set (map (\<lambda>e. fst (snd e)) xs)" using Cons.prems by auto
    then show ?thesis using True by (simp add: foldl_upd_other split: option.splits)
  next
    case False
    then have in_xs: "(i, k, v) \<in> set xs" using Cons.prems by auto
    then have "fst (snd x) \<noteq> k" using Cons.prems(1) by (auto simp: image_iff) 
    moreover have "distinct (map (\<lambda>e. fst (snd e)) xs)" using Cons.prems by simp
    ultimately show ?thesis using Cons.IH [OF _ in_xs]
      by (cases x) (auto split: option.splits)
  qed
qed

lemma clusterCenters_entry:
  assumes "(clusterIdx, k, ms) \<in> set (clusterEntries fns)"
  shows "clusterCenters cc fns k = Some (node_id (hd (sortedNodes cc ms)))"
proof -
  have ne: "ms \<noteq> []" using entry_members [OF assms] by (rule conjunct2)
  have "clusterCenters cc fns k =
      (case centerNode cc ms of None \<Rightarrow> None | Some c \<Rightarrow> Some (node_id c))"
    unfolding clusterCenters_def
    by (rule foldl_upd_lookup [OF distinct_keys_clusterEntries assms,
        where g = "\<lambda>i v. centerNode cc v" and p = node_id and ?m0.0 = "\<lambda>k. None"])
  then show ?thesis by (simp add: centerNode_eq_hd_sortedNodes [OF ne])
qed

lemma clusterMetadata_entry:
  assumes "(clusterIdx, k, ms) \<in> set (clusterEntries fns)"
  shows "clusterMetadata fns k = Some (clusterMeta (length (clusterGroups fns)) clusterIdx ms)"
  using foldl_upd_lookup [OF distinct_keys_clusterEntries assms,
        where g = "\<lambda>i v. Some (clusterMeta (length (clusterGroups fns)) i v)" and p = "\<lambda>c. c"
          and ?m0.0 = "\<lambda>k. None"]
  by (simp add: clusterMetadata_def)

section \<open>Completeness of the positions and single-node clusters\<close>

text \<open>
  Claim C1. For a graph whose node ids are distinct, the ids of the published flow nodes
  are the ids of the nodes that survive filtering, each exactly once, and every
  published node has a position, that is, no coordinate comes from a division by zero.
  In particular \<open>nodesInRing\<close>, the only divisor of the ring placement, is at least 1
  at every index of a cluster's sorted member list at which the ring branch is taken.
\<close>

theorem positions_complete:
  assumes "distinct (map node_id ns)"
  shows "mset (map fn_id (st_nodes (layout f h cnt ns es))) = mset (map node_id (filteredNodes f ns))
    \<and> distinct (map fn_id (st_nodes (layout f h cnt ns es)))
    \<and> (\<forall>fn\<in>set (st_nodes (layout f h cnt ns es)). fn_position fn \<noteq> None)
    \<and> (\<forall>idx clusterSize. 0 \<le> idx \<and> idx < clusterSize \<and> \<not> (idx = 0 \<and> clusterSize > 1)
          \<longrightarrow> 1 \<le> nodesInRing idx clusterSize)"
proof -
  let ?fl = "st_nodes (layout f h cnt ns es)"
  have "map fn_id ?fl = map node_id (map fn_data ?fl)"
    unfolding st_nodes_layout by (rule map_fn_id_flowNodes)
  then have "mset (map fn_id ?fl) = image_mset node_id (mset (map fn_data ?fl))"
    by (metis mset_map)
  also have "mset (map fn_data ?fl) = mset (filteredNodes f ns)"
    unfolding st_nodes_layout by (rule mset_flowNodes_data)
  finally have ids: "mset (map fn_id ?fl) = mset (map node_id (filteredNodes f ns))"
    by simp
  have "distinct (map node_id (filteredNodes f ns))"
    using assms unfolding filteredNodes_def by (rule distinct_map_filter)
  then have dist: "distinct (map fn_id ?fl)"
    using mset_eq_imp_distinct_iff [OF ids] by simp
  have pos: "\<forall>fn\<in>set ?fl. fn_position fn \<noteq> None"
    unfolding st_nodes_layout by (blast dest: flowNodes_position_defined)
  have ring: "\<forall>idx clusterSize. 0 \<le> idx \<and> idx < clusterSize \<and> \<not> (idx = 0 \<and> clusterSize > 1)
          \<longrightarrow> 1 \<le> nodesInRing idx clusterSize"
    using nodesInRing_pos by blast
  show ?thesis using ids dist pos ring by blast
qed

theorem positions_complete_witness:
  "distinct (map node_id two_cluster_nodes)
   \<and> map fn_id (st_nodes (layout no_filter None None two_cluster_nodes two_cluster_edges)) = [''b'', ''a'', ''c'']
   \<and> distinct (map fn_id (st_nodes (layout no_filter None None two_cluster_nodes two_cluster_edges)))
   \<and> 1 \<le> nodesInRing 1 2"
proof -
  have d: "distinct (map node_id two_cluster_nodes)"
    by (simp add: two_cluster_nodes_def mk_node_def)
  have e: "map fn_id (st_nodes (layout no_filter None None two_cluster_nodes two_cluster_edges)) = [''b'', ''a'', ''c'']"
    by (simp add: eval_defs two_cluster_nodes_def two_cluster_edges_def)
  from positions_complete [OF d, of no_filter None None two_cluster_edges] d e
  show ?thesis by simp
qed


text \<open>
  Claim C8. In a cluster with exactly one visible node, that node is published at the
  centre recorded for the cluster.
\<close>

theorem single_node_cluster_at_center:
  assumes "(clusterIdx, k, [n]) \<in> set (clusterEntries (filteredNodes f ns))"
  shows "\<exists>meta. clusterMetadata (filteredNodes f ns) k = Some meta
    \<and> (\<exists>fn\<in>set (st_nodes (layout f h cnt ns es)).
          fn_data fn = n \<and> fn_position fn = Some (cm_centerX meta, cm_centerY meta))
    \<and> (\<forall>fn\<in>set (st_nodes (layout f h cnt ns es)).
          clusterKey (fn_data fn) = k \<longrightarrow>
            fn_data fn = n \<and> fn_position fn = Some (cm_centerX meta, cm_centerY meta))"
proof -
  let ?fns = "filteredNodes f ns"
  let ?cc = "connectionCount (filteredEdges f ns es)"
  let ?num = "length (clusterGroups ?fns)"
  let ?meta = "clusterMeta ?num clusterIdx [n]"
  let ?hub = "layoutCluster ?cc h ?num clusterIdx [n] ! 0"
  have meta: "clusterMetadata ?fns k = Some ?meta" by (rule clusterMetadata_entry [OF assms])
  have hub_pos: "fn_position ?hub = Some (cm_centerX ?meta, cm_centerY ?meta)"
    using hub_at_center(1) [of "[n]" ?cc h ?num clusterIdx] by (simp add: clusterMeta_def)
  have hub_data: "fn_data ?hub = n"
    using hub_at_center(2) [of "[n]" ?cc h ?num clusterIdx] by (simp add: sortedNodes_def)
  have "?hub \<in> set (flowNodes ?cc h ?fns)"
    by (rule layoutCluster_in_flowNodes [OF assms]) simp
  then have ex: "\<exists>fn\<in>set (st_nodes (layout f h cnt ns es)).
      fn_data fn = n \<and> fn_position fn = Some (cm_centerX ?meta, cm_centerY ?meta)"
    using hub_data hub_pos unfolding st_nodes_layout by blast
  have all: "\<forall>fn\<in>set (st_nodes (layout f h cnt ns es)).
          clusterKey (fn_data fn) = k \<longrightarrow>
            fn_data fn = n \<and> fn_position fn = Some (cm_centerX ?meta, cm_centerY ?meta)"
  proof (intro ballI impI)
    fix fn assume fn: "fn \<in> set (st_nodes (layout f h cnt ns es))" and key: "clusterKey (fn_data fn) = k"
    from fn have "fn \<in> set (flowNodes ?cc h ?fns)" by (simp add: st_nodes_layout)
    then obtain clusterIdx' ms i where
      e: "(clusterIdx', clusterKey (fn_data fn), ms) \<in> set (clusterEntries ?fns)"
      and i: "i < length ms"
      and at: "fn = layoutCluster ?cc h ?num clusterIdx' ms ! i"
      by (rule flowNodes_cluster)
    from entries_unique [OF assms e [unfolded key]] have "clusterIdx' = clusterIdx" "ms = [n]" by auto
    with i at have "fn = ?hub" by simp
    then show "fn_data fn = n \<and> fn_position fn = Some (cm_centerX ?meta, cm_centerY ?meta)"
      using hub_pos hub_data by simp
  qed
  show ?thesis
    by (rule exI [of _ ?meta]) (intro conjI meta ex all)
qed

theorem single_node_cluster_at_center_witness:
  "(1, 1, [mk_node ''c'' 0 (Some 1)]) \<in> set (clusterEntries (filteredNodes no_filter two_cluster_nodes))
   \<and> (\<exists>meta. clusterMetadata (filteredNodes no_filter two_cluster_nodes) 1 = Some meta
        \<and> (\<exists>fn\<in>set (st_nodes (layout no_filter None None two_cluster_nodes two_cluster_edges)).
              fn_data fn = mk_node ''c'' 0 (Some 1)
              \<and> fn_position fn = Some (cm_centerX meta, cm_centerY meta)))"
proof -
  have e: "(1, 1, [mk_node ''c'' 0 (Some 1)]) \<in> set (clusterEntries (filteredNodes no_filter two_cluster_nodes))"
    by (simp add: eval_defs two_cluster_nodes_def)
  from single_node_cluster_at_center [OF e, of None None two_cluster_edges]
  have "\<exists>meta. clusterMetadata (filteredNodes no_filter two_cluster_nodes) 1 = Some meta
        \<and> (\<exists>fn\<in>set (st_nodes (layout no_filter None None two_cluster_nodes two_cluster_edges)).
              fn_data fn = mk_node ''c'' 0 (Some 1)
              \<and> fn_position fn = Some (cm_centerX meta, cm_centerY meta))"
    by blast
  with e show ?thesis by (rule conjI)
qed

section \<open>Hub correctness\<close>

lemma entry_hub_flow_node:
  assumes e: "(clusterIdx, k, ms) \<in> set (clusterEntries fns)"
  shows "\<exists>fn\<in>set (flowNodes cc h fns).
      fn_data fn = hd (sortedNodes cc ms)
      \<and> fn_id fn = node_id (hd (sortedNodes cc ms))
      \<and> fn_position fn = Some (centerX clusterIdx (length (clusterGroups fns)) (length ms),
                                centerY clusterIdx (length (clusterGroups fns)) (length ms))
      \<and> (\<forall>fn'\<in>set (flowNodes cc h fns).
            clusterKey (fn_data fn') = k
            \<and> fn_position fn' = Some (centerX clusterIdx (length (clusterGroups fns)) (length ms),
                                      centerY clusterIdx (length (clusterGroups fns)) (length ms))
            \<longrightarrow> fn' = fn)"
proof -
  let ?num = "length (clusterGroups fns)"
  let ?hub = "layoutCluster cc h ?num clusterIdx ms ! 0"
  let ?c = "Some (centerX clusterIdx ?num (length ms), centerY clusterIdx ?num (length ms))"
  have ne: "ms \<noteq> []" using entry_members [OF e] by (rule conjunct2)
  then have len: "0 < length ms" by simp
  have mem: "?hub \<in> set (flowNodes cc h fns)"
    by (rule layoutCluster_in_flowNodes [OF e len])
  have data: "fn_data ?hub = hd (sortedNodes cc ms)" by (rule hub_at_center(2) [OF ne])
  have pos: "fn_position ?hub = ?c" by (rule hub_at_center(1) [OF ne])
  have ident: "fn_id ?hub = node_id (hd (sortedNodes cc ms))"
    using fn_id_flowNodes [OF mem] data by simp
  have uniq: "\<forall>fn'\<in>set (flowNodes cc h fns).
      clusterKey (fn_data fn') = k \<and> fn_position fn' = ?c \<longrightarrow> fn' = ?hub"
  proof (intro ballI impI)
    fix fn' assume fn': "fn' \<in> set (flowNodes cc h fns)"
      and kp: "clusterKey (fn_data fn') = k \<and> fn_position fn' = ?c"
    from fn' obtain clusterIdx' ms' i where
      e': "(clusterIdx', clusterKey (fn_data fn'), ms') \<in> set (clusterEntries fns)"
      and i: "i < length ms'"
      and at: "fn' = layoutCluster cc h ?num clusterIdx' ms' ! i"
      by (rule flowNodes_cluster)
    from kp have key: "clusterKey (fn_data fn') = k" by (rule conjunct1)
    from entries_unique [OF e e' [unfolded key]] have same: "clusterIdx' = clusterIdx" "ms' = ms"
      by auto
    from kp have "fn_position (layoutCluster cc h ?num clusterIdx ms ! i) = ?c"
      unfolding at same by (rule conjunct2)
    with i have "i = 0" unfolding same by (rule only_hub_at_center)
    then show "fn' = ?hub" unfolding at same by simp
  qed
  show ?thesis
    by (rule bexI [of _ ?hub]) (intro conjI data ident pos uniq, rule mem)
qed

lemma spec_hub_input_order:
  "spec_hub cc (filteredNodes f ns) k =
     find (\<lambda>n. node_visible f n \<and> clusterKey n = k
                \<and> (\<forall>m\<in>set ns. node_visible f m \<and> clusterKey m = k \<longrightarrow> cc (node_id m) \<le> cc (node_id n))) ns"
  unfolding spec_hub_def filteredNodes_def find_filter
  by (rule find_cong) auto

lemma entry_of_member:
  assumes "k \<in> clusterKey ` set fns"
  obtains clusterIdx where "(clusterIdx, k, filter (\<lambda>n. clusterKey n = k) fns) \<in> set (clusterEntries fns)"
proof -
  from assms have "(k, filter (\<lambda>n. clusterKey n = k) fns) \<in> set (clusterGroups fns)"
    by (simp add: clusterGroups_iff)
  from clusterEntries_exists [OF this] that show ?thesis by blast
qed

text \<open>
  Claim C4. For every cluster with at least one visible member, the hub of the
  specification (the visible member of maximal computed degree, the earliest one in the
  input order on a tie) exists, it is published at the centre recorded for the cluster,
  and no other member of the cluster is published there.
\<close>

theorem hub_placed_at_center:
  assumes "k \<in> clusterKey ` set (filteredNodes f ns)"
  shows "\<exists>hub meta.
      spec_hub (connectionCount (filteredEdges f ns es)) (filteredNodes f ns) k = Some hub
      \<and> find (\<lambda>n. node_visible f n \<and> clusterKey n = k
                \<and> (\<forall>m\<in>set ns. node_visible f m \<and> clusterKey m = k \<longrightarrow>
                      connectionCount (filteredEdges f ns es) (node_id m)
                        \<le> connectionCount (filteredEdges f ns es) (node_id n))) ns = Some hub
      \<and> clusterMetadata (filteredNodes f ns) k = Some meta
      \<and> (\<exists>fn\<in>set (st_nodes (layout f h cnt ns es)).
            fn_data fn = hub \<and> fn_position fn = Some (cm_centerX meta, cm_centerY meta)
            \<and> (\<forall>fn'\<in>set (st_nodes (layout f h cnt ns es)).
                  clusterKey (fn_data fn') = k
                  \<and> fn_position fn' = Some (cm_centerX meta, cm_centerY meta) \<longrightarrow> fn' = fn))"
proof -
  let ?fns = "filteredNodes f ns"
  let ?cc = "connectionCount (filteredEdges f ns es)"
  let ?ms = "filter (\<lambda>n. clusterKey n = k) ?fns"
  from assms obtain clusterIdx where e: "(clusterIdx, k, ?ms) \<in> set (clusterEntries ?fns)"
    by (rule entry_of_member)
  let ?meta = "clusterMeta (length (clusterGroups ?fns)) clusterIdx ?ms"
  have hub: "spec_hub ?cc ?fns k = Some (hd (sortedNodes ?cc ?ms))" by (rule spec_hub_entry [OF e])
  have hub': "find (\<lambda>n. node_visible f n \<and> clusterKey n = k
                \<and> (\<forall>m\<in>set ns. node_visible f m \<and> clusterKey m = k \<longrightarrow>
                      ?cc (node_id m) \<le> ?cc (node_id n))) ns = Some (hd (sortedNodes ?cc ?ms))"
    using hub unfolding spec_hub_input_order .
  have meta: "clusterMetadata ?fns k = Some ?meta" by (rule clusterMetadata_entry [OF e])
  have fl: "\<exists>fn\<in>set (st_nodes (layout f h cnt ns es)).
            fn_data fn = hd (sortedNodes ?cc ?ms) \<and> fn_position fn = Some (cm_centerX ?meta, cm_centerY ?meta)
            \<and> (\<forall>fn'\<in>set (st_nodes (layout f h cnt ns es)).
                  clusterKey (fn_data fn') = k
                  \<and> fn_position fn' = Some (cm_centerX ?meta, cm_centerY ?meta) \<longrightarrow> fn' = fn)"
    using entry_hub_flow_node [OF e, of ?cc h] unfolding st_nodes_layout
    by (simp add: clusterMeta_def) blast
  show ?thesis
    by (rule exI [of _ "hd (sortedNodes ?cc ?ms)"], rule exI [of _ ?meta]) (intro conjI hub hub' meta fl)
qed

theorem hub_placed_at_center_witness:
  "0 \<in> clusterKey ` set (filteredNodes no_filter two_cluster_nodes)
   \<and> spec_hub (connectionCount (filteredEdges no_filter two_cluster_nodes two_cluster_edges))
        (filteredNodes no_filter two_cluster_nodes) 0 = Some (mk_node ''b'' 0 (Some 0))
   \<and> (\<exists>meta. clusterMetadata (filteredNodes no_filter two_cluster_nodes) 0 = Some meta
        \<and> (\<exists>fn\<in>set (st_nodes (layout no_filter None None two_cluster_nodes two_cluster_edges)).
              fn_data fn = mk_node ''b'' 0 (Some 0)
              \<and> fn_position fn = Some (cm_centerX meta, cm_centerY meta)))"
proof -
  have k: "0 \<in> clusterKey ` set (filteredNodes no_filter two_cluster_nodes)"
    by (simp add: eval_defs two_cluster_nodes_def)
  have hub: "spec_hub (connectionCount (filteredEdges no_filter two_cluster_nodes two_cluster_edges))
        (filteredNodes no_filter two_cluster_nodes) 0 = Some (mk_node ''b'' 0 (Some 0))"
    by (simp add: spec_hub_def eval_defs two_cluster_nodes_def two_cluster_edges_def)
  from hub_placed_at_center [OF k, of two_cluster_edges None None] hub
  have "\<exists>meta. clusterMetadata (filteredNodes no_filter two_cluster_nodes) 0 = Some meta
        \<and> (\<exists>fn\<in>set (st_nodes (layout no_filter None None two_cluster_nodes two_cluster_edges)).
              fn_data fn = mk_node ''b'' 0 (Some 0)
              \<and> fn_position fn = Some (cm_centerX meta, cm_centerY meta))"
    by (elim exE conjE) (simp, blast)
  with k hub show ?thesis by (intro conjI)
qed

text \<open>
  Claim C10. For every cluster of the visible nodes, in particular for one with at
  least two members, the endpoint that the connector resolver picks (the strict-greater
  scan \<open>centerNode\<close>, stored in \<open>clusterCenters\<close>) is the first of the members sorted
  stably by descending degree, and that node is the one the layout publishes at the
  centre of the cluster, where no other member is published.
\<close>

theorem connector_hub_is_layout_hub:
  assumes "(clusterIdx, k, ms) \<in> set (clusterEntries (filteredNodes f ns))"
    and "2 \<le> length ms"
  shows "centerNode (connectionCount (filteredEdges f ns es)) ms
           = Some (hd (sortedNodes (connectionCount (filteredEdges f ns es)) ms))
    \<and> (\<exists>meta. clusterMetadata (filteredNodes f ns) k = Some meta
        \<and> (\<exists>fn\<in>set (st_nodes (layout f h cnt ns es)).
              clusterCenters (connectionCount (filteredEdges f ns es)) (filteredNodes f ns) k = Some (fn_id fn)
              \<and> centerNode (connectionCount (filteredEdges f ns es)) ms = Some (fn_data fn)
              \<and> fn_position fn = Some (cm_centerX meta, cm_centerY meta)
              \<and> (\<forall>fn'\<in>set (st_nodes (layout f h cnt ns es)).
                    clusterKey (fn_data fn') = k
                    \<and> fn_position fn' = Some (cm_centerX meta, cm_centerY meta) \<longrightarrow> fn' = fn)))"
proof -
  let ?fns = "filteredNodes f ns"
  let ?cc = "connectionCount (filteredEdges f ns es)"
  let ?meta = "clusterMeta (length (clusterGroups ?fns)) clusterIdx ms"
  have ne: "ms \<noteq> []" using assms(2) by auto
  have scan: "centerNode ?cc ms = Some (hd (sortedNodes ?cc ms))"
    by (rule centerNode_eq_hd_sortedNodes [OF ne])
  have centers: "clusterCenters ?cc ?fns k = Some (node_id (hd (sortedNodes ?cc ms)))"
    by (rule clusterCenters_entry [OF assms(1)])
  have meta: "clusterMetadata ?fns k = Some ?meta" by (rule clusterMetadata_entry [OF assms(1)])
  have fl: "\<exists>fn\<in>set (st_nodes (layout f h cnt ns es)).
              clusterCenters ?cc ?fns k = Some (fn_id fn)
              \<and> centerNode ?cc ms = Some (fn_data fn)
              \<and> fn_position fn = Some (cm_centerX ?meta, cm_centerY ?meta)
              \<and> (\<forall>fn'\<in>set (st_nodes (layout f h cnt ns es)).
                    clusterKey (fn_data fn') = k
                    \<and> fn_position fn' = Some (cm_centerX ?meta, cm_centerY ?meta) \<longrightarrow> fn' = fn)"
  proof -
    from entry_hub_flow_node [OF assms(1), of ?cc h] obtain fn where
      mem: "fn \<in> set (flowNodes ?cc h ?fns)"
      and data: "fn_data fn = hd (sortedNodes ?cc ms)"
      and ident: "fn_id fn = node_id (hd (sortedNodes ?cc ms))"
      and pos: "fn_position fn = Some (cm_centerX ?meta, cm_centerY ?meta)"
      and uniq: "\<forall>fn'\<in>set (flowNodes ?cc h ?fns).
            clusterKey (fn_data fn') = k
            \<and> fn_position fn' = Some (cm_centerX ?meta, cm_centerY ?meta) \<longrightarrow> fn' = fn"
      unfolding clusterMeta_def cluster_meta.simps by blast
    have "clusterCenters ?cc ?fns k = Some (fn_id fn)" using centers ident by simp
    moreover have "centerNode ?cc ms = Some (fn_data fn)" using scan data by simp
    ultimately show ?thesis using mem pos uniq unfolding st_nodes_layout by blast
  qed
  show ?thesis
    by (intro conjI scan exI [of _ ?meta] meta fl)
qed

theorem connector_hub_is_layout_hub_witness:
  "(0, 0, [mk_node ''a'' 0 (Some 0), mk_node ''b'' 0 (Some 0)])
      \<in> set (clusterEntries (filteredNodes no_filter two_cluster_nodes))
   \<and> 2 \<le> length [mk_node ''a'' 0 (Some 0), mk_node ''b'' 0 (Some 0)]
   \<and> centerNode (connectionCount (filteredEdges no_filter two_cluster_nodes two_cluster_edges))
        [mk_node ''a'' 0 (Some 0), mk_node ''b'' 0 (Some 0)] = Some (mk_node ''b'' 0 (Some 0))
   \<and> hd (sortedNodes (connectionCount (filteredEdges no_filter two_cluster_nodes two_cluster_edges))
        [mk_node ''a'' 0 (Some 0), mk_node ''b'' 0 (Some 0)]) = mk_node ''b'' 0 (Some 0)"
proof -
  have e: "(0, 0, [mk_node ''a'' 0 (Some 0), mk_node ''b'' 0 (Some 0)])
      \<in> set (clusterEntries (filteredNodes no_filter two_cluster_nodes))"
    by (simp add: eval_defs two_cluster_nodes_def)
  have l: "2 \<le> length [mk_node ''a'' 0 (Some 0), mk_node ''b'' 0 (Some 0)]" by simp
  have c: "centerNode (connectionCount (filteredEdges no_filter two_cluster_nodes two_cluster_edges))
        [mk_node ''a'' 0 (Some 0), mk_node ''b'' 0 (Some 0)] = Some (mk_node ''b'' 0 (Some 0))"
    by (simp add: centerNode_def eval_defs two_cluster_nodes_def two_cluster_edges_def)
  from connector_hub_is_layout_hub [OF e l, of two_cluster_edges None None] c
  have "hd (sortedNodes (connectionCount (filteredEdges no_filter two_cluster_nodes two_cluster_edges))
        [mk_node ''a'' 0 (Some 0), mk_node ''b'' 0 (Some 0)]) = mk_node ''b'' 0 (Some 0)"
    by simp
  with e l c show ?thesis by (intro conjI)
qed

section \<open>Scenario A\<close>

lemma angle_1_3: "angle 1 3 = Some (pi / 8)"
  by (simp add: angle_def js_div_def posInRing_def nodesInRing_def ring_def angleOffset_def js_rem_def)

lemma angle_2_3: "angle 2 3 = Some (9 * pi / 8)"
  by (simp add: angle_def js_div_def posInRing_def nodesInRing_def ring_def angleOffset_def js_rem_def)

lemma ringRadius_1: "ringRadius 1 = 60" and ringRadius_2: "ringRadius 2 = 60"
  by (simp_all add: ringRadius_def ring_def)

lemma sin_pi_8_pos: "0 < sin (pi / 8)"
  by (rule sin_gt_zero) (simp_all add: pi_gt_zero)

lemma scenarioA_layout:
  assumes order: "fns = [a, b, c] \<or> fns = [b, a, c] \<or> fns = [b, c, a]"
    and cl: "cluster_id a = Some 0" "cluster_id b = Some 0" "cluster_id c = Some 0"
    and deg: "cc (node_id a) = 2" "cc (node_id b) = 1" "cc (node_id c) = 1"
  shows "map fn_data (flowNodes cc h fns) = [a, b, c]"
    and "map fn_position (flowNodes cc h fns) =
      [Some (centerX 0 1 3, centerY 0 1 3),
       Some (centerX 0 1 3 + 60 * cos (pi / 8), centerY 0 1 3 + 60 * sin (pi / 8)),
       Some (centerX 0 1 3 + 60 * cos (9 * pi / 8), centerY 0 1 3 + 60 * sin (9 * pi / 8))]"
    and "clusterMetadata fns 0 = Some (clusterMeta 1 0 fns)"
    and "length fns = 3"
proof -
  have groups: "clusterGroups fns = [(0, fns)]"
    using order cl by (auto simp: clusterGroups_def clusterKey_def)
  have entries: "clusterEntries fns = [(0, 0, fns)]"
    by (simp add: clusterEntries_def groups Object_entries_def is_array_index_def)
  have sorted: "sortedNodes cc fns = [a, b, c]"
    using order deg by (auto simp: sortedNodes_def)
  show len: "length fns = 3" using order by auto
  have fl: "flowNodes cc h fns = layoutCluster cc h 1 0 fns"
    by (simp add: flowNodes_def entries groups)
  show "map fn_data (flowNodes cc h fns) = [a, b, c]"
    unfolding fl map_fn_data_layoutCluster by (rule sorted)
  show "map fn_position (flowNodes cc h fns) =
      [Some (centerX 0 1 3, centerY 0 1 3),
       Some (centerX 0 1 3 + 60 * cos (pi / 8), centerY 0 1 3 + 60 * sin (pi / 8)),
       Some (centerX 0 1 3 + 60 * cos (9 * pi / 8), centerY 0 1 3 + 60 * sin (9 * pi / 8))]"
    unfolding fl
    by (simp add: layoutCluster_def Let_def sorted len clusterMeta_def node_position_def
          angle_1_3 angle_2_3 ringRadius_1 ringRadius_2)
  show "clusterMetadata fns 0 = Some (clusterMeta 1 0 fns)"
    by (simp add: clusterMetadata_def entries groups)
qed

lemma scenarioA_facts:
  "filteredNodes no_filter scenarioA_nodes = [mk_node ''a'' 0 (Some 0), mk_node ''b'' 0 (Some 0), mk_node ''c'' 0 (Some 0)]"
  "connectionCount (filteredEdges no_filter scenarioA_nodes scenarioA_edges) (node_id (mk_node ''a'' 0 (Some 0))) = 2"
  "connectionCount (filteredEdges no_filter scenarioA_nodes scenarioA_edges) (node_id (mk_node ''b'' 0 (Some 0))) = 1"
  "connectionCount (filteredEdges no_filter scenarioA_nodes scenarioA_edges) (node_id (mk_node ''c'' 0 (Some 0))) = 1"
  by (simp_all add: eval_defs scenarioA_nodes_def scenarioA_edges_def)

text \<open>
  Claim C6, as stated, fails in scenario A itself: \<open>a\<close> is the hub and \<open>b\<close>, \<open>c\<close> are in
  ring 1, but the angle of \<open>b\<close> is \<open>\<pi>/8\<close>, not 0, so \<open>b\<close> is not published where
  angle 0 would put it.
\<close>

theorem scenarioA_angle_counterexample:
  "map fn_id (st_nodes (layout no_filter None None scenarioA_nodes scenarioA_edges)) = [''a'', ''b'', ''c'']
   \<and> map fn_degree (st_nodes (layout no_filter None None scenarioA_nodes scenarioA_edges)) = [2, 1, 1]
   \<and> angle 1 3 = Some (pi / 8) \<and> angle 1 3 \<noteq> Some 0
   \<and> fn_position (st_nodes (layout no_filter None None scenarioA_nodes scenarioA_edges) ! 1)
        = Some (centerX 0 1 3 + 60 * cos (pi / 8), centerY 0 1 3 + 60 * sin (pi / 8))
   \<and> fn_position (st_nodes (layout no_filter None None scenarioA_nodes scenarioA_edges) ! 1)
        \<noteq> Some (centerX 0 1 3 + 60 * cos 0, centerY 0 1 3 + 60 * sin 0)"
proof -
  let ?out = "st_nodes (layout no_filter None None scenarioA_nodes scenarioA_edges)"
  let ?cc = "connectionCount (filteredEdges no_filter scenarioA_nodes scenarioA_edges)"
  have ids: "map fn_id ?out = [''a'', ''b'', ''c'']"
    and degs: "map fn_degree ?out = [2, 1, 1]"
    by (simp_all add: eval_defs scenarioA_nodes_def scenarioA_edges_def)
  have "map fn_position (flowNodes ?cc None (filteredNodes no_filter scenarioA_nodes)) =
      [Some (centerX 0 1 3, centerY 0 1 3),
       Some (centerX 0 1 3 + 60 * cos (pi / 8), centerY 0 1 3 + 60 * sin (pi / 8)),
       Some (centerX 0 1 3 + 60 * cos (9 * pi / 8), centerY 0 1 3 + 60 * sin (9 * pi / 8))]"
    by (rule scenarioA_layout(2) [where a = "mk_node ''a'' 0 (Some 0)" and b = "mk_node ''b'' 0 (Some 0)"
          and c = "mk_node ''c'' 0 (Some 0)"])
       (simp_all add: scenarioA_facts, simp_all add: mk_node_def)
  then have posl: "map fn_position ?out =
      [Some (centerX 0 1 3, centerY 0 1 3),
       Some (centerX 0 1 3 + 60 * cos (pi / 8), centerY 0 1 3 + 60 * sin (pi / 8)),
       Some (centerX 0 1 3 + 60 * cos (9 * pi / 8), centerY 0 1 3 + 60 * sin (9 * pi / 8))]"
    by (simp only: st_nodes_layout)
  have len: "length ?out = 3" using ids by (metis length_map length_Cons list.size(3) numeral_3_eq_3)
  have "map fn_position ?out ! 1 = fn_position (?out ! 1)"
    by (rule nth_map) (simp add: len)
  then have pos: "fn_position (?out ! 1)
        = Some (centerX 0 1 3 + 60 * cos (pi / 8), centerY 0 1 3 + 60 * sin (pi / 8))"
    unfolding posl by simp
  have neq: "fn_position (?out ! 1) \<noteq> Some (centerX 0 1 3 + 60 * cos 0, centerY 0 1 3 + 60 * sin 0)"
    unfolding pos using sin_pi_8_pos by simp
  have "pi / 8 \<noteq> 0" using pi_gt_zero by simp
  then have a0: "angle 1 3 \<noteq> Some 0" by (simp add: angle_1_3)
  show ?thesis using ids degs angle_1_3 a0 pos neq by (intro conjI)
qed

text \<open>
  Claim C6, amended. For three visible nodes \<open>a\<close>, \<open>b\<close>, \<open>c\<close> in cluster 0, with \<open>b\<close>
  before \<open>c\<close> in the input, \<open>a\<close> of degree 2 and \<open>b\<close>, \<open>c\<close> of degree 1: \<open>a\<close> is published
  first and exactly at the centre of cluster 0, and \<open>b\<close> and \<open>c\<close> are published in
  ring 1 (radius 60) at the angles \<open>\<pi>/8\<close> and \<open>\<pi>/8 + \<pi>\<close>: evenly spaced, after the
  offset \<open>\<pi>/8\<close> of an odd ring.
\<close>

theorem scenarioA_layout_angles:
  assumes "filteredNodes f ns = [a, b, c] \<or> filteredNodes f ns = [b, a, c] \<or> filteredNodes f ns = [b, c, a]"
    and "cluster_id a = Some 0" "cluster_id b = Some 0" "cluster_id c = Some 0"
    and "connectionCount (filteredEdges f ns es) (node_id a) = 2"
    and "connectionCount (filteredEdges f ns es) (node_id b) = 1"
    and "connectionCount (filteredEdges f ns es) (node_id c) = 1"
  shows "map fn_data (st_nodes (layout f h cnt ns es)) = [a, b, c]
    \<and> (\<exists>meta. clusterMetadata (filteredNodes f ns) 0 = Some meta
         \<and> map fn_position (st_nodes (layout f h cnt ns es)) =
             [Some (cm_centerX meta, cm_centerY meta),
              Some (cm_centerX meta + ringRadius 1 * cos (pi / 8), cm_centerY meta + ringRadius 1 * sin (pi / 8)),
              Some (cm_centerX meta + ringRadius 2 * cos (pi / 8 + pi), cm_centerY meta + ringRadius 2 * sin (pi / 8 + pi))])
    \<and> ring 1 = 1 \<and> ring 2 = 1 \<and> ringRadius 1 = 60 \<and> ringRadius 2 = 60
    \<and> angle 1 3 = Some (pi / 8) \<and> angle 2 3 = Some (pi / 8 + pi)"
proof -
  let ?fns = "filteredNodes f ns"
  let ?cc = "connectionCount (filteredEdges f ns es)"
  note A1 = scenarioA_layout(1) [OF assms, where h = h]
  note A2 = scenarioA_layout(2) [OF assms, where h = h]
  note A3 = scenarioA_layout(3) [OF assms]
  note A4 = scenarioA_layout(4) [OF assms]
  have nine: "9 * pi / 8 = pi / 8 + pi" by simp
  have data: "map fn_data (st_nodes (layout f h cnt ns es)) = [a, b, c]"
    unfolding st_nodes_layout by (rule A1)
  have meta: "clusterMetadata ?fns 0 = Some (clusterMeta 1 0 ?fns)" by (rule A3)
  have pos: "map fn_position (st_nodes (layout f h cnt ns es)) =
             [Some (cm_centerX (clusterMeta 1 0 ?fns), cm_centerY (clusterMeta 1 0 ?fns)),
              Some (cm_centerX (clusterMeta 1 0 ?fns) + ringRadius 1 * cos (pi / 8),
                    cm_centerY (clusterMeta 1 0 ?fns) + ringRadius 1 * sin (pi / 8)),
              Some (cm_centerX (clusterMeta 1 0 ?fns) + ringRadius 2 * cos (pi / 8 + pi),
                    cm_centerY (clusterMeta 1 0 ?fns) + ringRadius 2 * sin (pi / 8 + pi))]"
    unfolding st_nodes_layout A2 nine [symmetric]
    by (simp add: clusterMeta_def A4 ringRadius_1 ringRadius_2)
  have rings: "ring 1 = 1" "ring 2 = 1" by (simp_all add: ring_def)
  have a2: "angle 2 3 = Some (pi / 8 + pi)" using angle_2_3 by (simp only: nine)
  show ?thesis
    by (intro conjI data exI [of _ "clusterMeta 1 0 ?fns"] meta pos rings ringRadius_1 ringRadius_2 angle_1_3 a2)
qed

theorem scenarioA_layout_angles_witness:
  "filteredNodes no_filter scenarioA_nodes = [mk_node ''a'' 0 (Some 0), mk_node ''b'' 0 (Some 0), mk_node ''c'' 0 (Some 0)]
   \<and> connectionCount (filteredEdges no_filter scenarioA_nodes scenarioA_edges) ''a'' = 2
   \<and> connectionCount (filteredEdges no_filter scenarioA_nodes scenarioA_edges) ''b'' = 1
   \<and> connectionCount (filteredEdges no_filter scenarioA_nodes scenarioA_edges) ''c'' = 1
   \<and> map fn_data (st_nodes (layout no_filter None None scenarioA_nodes scenarioA_edges))
        = [mk_node ''a'' 0 (Some 0), mk_node ''b'' 0 (Some 0), mk_node ''c'' 0 (Some 0)]
   \<and> angle 2 3 = Some (pi / 8 + pi)"
proof -
  have ids: "cluster_id (mk_node ''a'' 0 (Some 0)) = Some 0" "cluster_id (mk_node ''b'' 0 (Some 0)) = Some 0"
    "cluster_id (mk_node ''c'' 0 (Some 0)) = Some 0"
    by (simp_all add: mk_node_def)
  have order: "filteredNodes no_filter scenarioA_nodes = [mk_node ''a'' 0 (Some 0), mk_node ''b'' 0 (Some 0), mk_node ''c'' 0 (Some 0)]
     \<or> filteredNodes no_filter scenarioA_nodes = [mk_node ''b'' 0 (Some 0), mk_node ''a'' 0 (Some 0), mk_node ''c'' 0 (Some 0)]
     \<or> filteredNodes no_filter scenarioA_nodes = [mk_node ''b'' 0 (Some 0), mk_node ''c'' 0 (Some 0), mk_node ''a'' 0 (Some 0)]"
    using scenarioA_facts(1) by (rule disjI1)
  from scenarioA_layout_angles [OF order ids scenarioA_facts(2-4), of None None]
  have "map fn_data (st_nodes (layout no_filter None None scenarioA_nodes scenarioA_edges))
        = [mk_node ''a'' 0 (Some 0), mk_node ''b'' 0 (Some 0), mk_node ''c'' 0 (Some 0)]"
    and "angle 2 3 = Some (pi / 8 + pi)"
    by blast+
  moreover have "connectionCount (filteredEdges no_filter scenarioA_nodes scenarioA_edges) ''a'' = 2"
    "connectionCount (filteredEdges no_filter scenarioA_nodes scenarioA_edges) ''b'' = 1"
    "connectionCount (filteredEdges no_filter scenarioA_nodes scenarioA_edges) ''c'' = 1"
    using scenarioA_facts(2-4) by (simp_all add: mk_node_def)
  ultimately show ?thesis using scenarioA_facts(1) by (intro conjI)
qed

section \<open>Facts about decimal strings and connected cluster pairs\<close>

lemma lt_10_cases:
  "d < 10 \<Longrightarrow> d = 0 \<or> d = 1 \<or> d = 2 \<or> d = 3 \<or> d = 4 \<or> d = 5 \<or> d = 6 \<or> d = 7 \<or> d = 8 \<or> d = (9::nat)"
  by arith

lemma is_digit_digit_char: "d < 10 \<Longrightarrow> is_digit (digit_char d)"
  by (drule lt_10_cases) (auto simp: is_digit_def digit_char_def)

lemma digit_val_digit_char: "d < 10 \<Longrightarrow> digit_val (digit_char d) = d"
  by (drule lt_10_cases) (auto simp: digit_val_def digit_char_def)

lemma is_digit_not_dash: "is_digit c \<Longrightarrow> c \<noteq> CHR ''-''"
  by (auto simp: is_digit_def)

lemma show_nat_digits: "list_all is_digit (show_nat n)"
proof (induction n rule: show_nat.induct)
  case (1 n)
  show ?case
  proof (cases "n < 10")
    case True
    then show ?thesis by (subst show_nat.simps) (simp add: is_digit_digit_char)
  next
    case False
    then show ?thesis using 1 by (subst show_nat.simps) (simp add: is_digit_digit_char)
  qed
qed

lemma show_nat_nonempty: "show_nat n \<noteq> []"
  by (subst show_nat.simps) simp

lemma digits_val_snoc: "digits_val (s @ [c]) = 10 * digits_val s + digit_val c"
  by (simp add: digits_val_def)

lemma digits_val_show_nat: "digits_val (show_nat n) = n"
proof (induction n rule: show_nat.induct)
  case (1 n)
  show ?case
  proof (cases "n < 10")
    case True
    then show ?thesis by (subst show_nat.simps) (simp add: digits_val_def digit_val_digit_char)
  next
    case False
    then show ?thesis using 1
      by (subst show_nat.simps) (simp add: digits_val_snoc digit_val_digit_char)
  qed
qed

lemma dash_notin_show_nat: "CHR ''-'' \<notin> set (show_nat n)"
  using show_nat_digits [of n] is_digit_not_dash by (auto simp: list_all_iff)

lemma Number_js_show_nat: "Number_js (show_nat n) = Some (int n)"
  by (simp add: Number_js_def show_nat_nonempty show_nat_digits digits_val_show_nat)

lemma split_on_none: "c \<notin> set s \<Longrightarrow> split_on c s = [s]"
  by (induction s) auto

lemma split_on_append: "c \<notin> set s \<Longrightarrow> split_on c (s @ c # t) = s # split_on c t"
  by (induction s) auto

lemma show_int_nonneg: "0 \<le> i \<Longrightarrow> show_int i = show_nat (nat i)"
  by (simp add: show_int_def)

lemma pair_numbers_key_of:
  assumes "0 \<le> a" "0 \<le> b"
  shows "pair_numbers (key_of (a, b)) = (Some a, Some b)"
proof -
  have "split_on CHR ''-'' (key_of (a, b)) = [show_nat (nat a), show_nat (nat b)]"
    using assms
    by (simp add: key_of_def show_int_nonneg split_on_append split_on_none dash_notin_show_nat)
  then show ?thesis using assms by (simp add: pair_numbers_def Number_js_show_nat)
qed

lemma pair_key_eq: "pair_key a b = key_of (min a b, max a b)"
  by (auto simp: pair_key_def key_of_def join_dash_def min_def max_def)

lemma connectedClusters_fold:
  "connectedClusters ncm fes =
     foldl (\<lambda>ps e. (case crossing ncm e of None \<Rightarrow> ps | Some p \<Rightarrow> set_add (key_of p) ps)) [] fes"
proof -
  have "(\<lambda>ps e. (case (ncm (source e), ncm (target e)) of
           (Some srcCluster, Some tgtCluster) \<Rightarrow>
             if srcCluster \<noteq> tgtCluster then set_add (pair_key srcCluster tgtCluster) ps else ps
         | _ \<Rightarrow> ps))
      = (\<lambda>ps e. (case crossing ncm e of None \<Rightarrow> ps | Some p \<Rightarrow> set_add (key_of p) ps))"
    by (auto simp: fun_eq_iff crossing_def pair_key_eq split: option.splits)
  then show ?thesis unfolding connectedClusters_def by (rule arg_cong [where f = "\<lambda>s. foldl s [] fes"])
qed

lemma set_add_props:
  "set (set_add p ps) = insert p (set ps)" "distinct ps \<Longrightarrow> distinct (set_add p ps)"
  by (auto simp: set_add_def)

lemma connectedClusters_props:
  "set (connectedClusters ncm fes) = key_of ` crossing_pairs ncm fes
   \<and> distinct (connectedClusters ncm fes)"
proof (induction fes rule: rev_induct)
  case Nil
  show ?case by (simp add: connectedClusters_fold crossing_pairs_def map_filter_simps)
next
  case (snoc e fes)
  have step: "connectedClusters ncm (fes @ [e]) =
      (case crossing ncm e of None \<Rightarrow> connectedClusters ncm fes
       | Some p \<Rightarrow> set_add (key_of p) (connectedClusters ncm fes))"
    unfolding connectedClusters_fold by simp
  have pairs: "crossing_pairs ncm (fes @ [e]) =
      (case crossing ncm e of None \<Rightarrow> crossing_pairs ncm fes
       | Some p \<Rightarrow> insert p (crossing_pairs ncm fes))"
    by (auto simp: crossing_pairs_def map_filter_def split: option.splits)
  show ?case using snoc unfolding step pairs
    by (auto simp: set_add_props split: option.splits)
qed

section \<open>Facts about the cluster lookup of edge endpoints\<close>

lemma nodeClusterMap_snoc:
  "nodeClusterMap (fl @ [n]) = (nodeClusterMap fl)(fn_id n := cluster_id (fn_data n))"
  by (simp add: nodeClusterMap_def)

lemma nodeClusterMap_char:
  "distinct (map fn_id fl) \<Longrightarrow>
     nodeClusterMap fl i = Some c \<longleftrightarrow> (\<exists>n\<in>set fl. fn_id n = i \<and> cluster_id (fn_data n) = Some c)"
proof (induction fl rule: rev_induct)
  case Nil
  show ?case by (simp add: nodeClusterMap_def)
next
  case (snoc n fl)
  then have ih: "nodeClusterMap fl i = Some c \<longleftrightarrow> (\<exists>m\<in>set fl. fn_id m = i \<and> cluster_id (fn_data m) = Some c)"
    and fresh: "fn_id n \<notin> fn_id ` set fl"
    by auto
  show ?case
  proof (cases "fn_id n = i")
    case True
    have "\<forall>m\<in>set fl. fn_id m \<noteq> i" using fresh True by (metis imageI)
    then show ?thesis using True by (auto simp: nodeClusterMap_snoc)
  next
    case False
    then show ?thesis using ih by (auto simp: nodeClusterMap_snoc)
  qed
qed

lemma cluster_of_char:
  "distinct (map node_id fns) \<Longrightarrow>
     cluster_of fns i = Some c \<longleftrightarrow> (\<exists>n\<in>set fns. node_id n = i \<and> cluster_id n = Some c)"
proof (induction fns)
  case Nil
  show ?case by (simp add: cluster_of_def)
next
  case (Cons n fns)
  then have ih: "cluster_of fns i = Some c \<longleftrightarrow> (\<exists>m\<in>set fns. node_id m = i \<and> cluster_id m = Some c)"
    and fresh: "node_id n \<notin> node_id ` set fns"
    by auto
  show ?case
  proof (cases "node_id n = i")
    case True
    have "\<forall>m\<in>set fns. node_id m \<noteq> i" using fresh True by (metis imageI)
    then show ?thesis using True by (auto simp: cluster_of_def)
  next
    case False
    then show ?thesis using ih by (auto simp: cluster_of_def)
  qed
qed

lemma option_eqI: "(\<And>c. x = Some c \<longleftrightarrow> y = Some c) \<Longrightarrow> x = y"
  by (cases x; cases y) auto

lemma nodeClusterMap_flowNodes:
  assumes "distinct (map node_id fns)"
  shows "nodeClusterMap (flowNodes cc h fns) = cluster_of fns"
proof (rule ext, rule option_eqI)
  fix i c
  let ?fl = "flowNodes cc h fns"
  have ids: "map fn_id ?fl = map node_id (map fn_data ?fl)" by (rule map_fn_id_flowNodes)
  then have "mset (map fn_id ?fl) = image_mset node_id (mset (map fn_data ?fl))"
    by (metis mset_map)
  also have "mset (map fn_data ?fl) = mset fns" by (rule mset_flowNodes_data)
  finally have "mset (map fn_id ?fl) = mset (map node_id fns)" by simp
  then have d: "distinct (map fn_id ?fl)"
    using assms mset_eq_imp_distinct_iff by blast
  have "(\<exists>n\<in>set ?fl. fn_id n = i \<and> cluster_id (fn_data n) = Some c)
      \<longleftrightarrow> (\<exists>m\<in>fn_data ` set ?fl. node_id m = i \<and> cluster_id m = Some c)"
    using fn_id_flowNodes [of _ cc h fns] by auto
  also have "\<dots> \<longleftrightarrow> (\<exists>m\<in>set fns. node_id m = i \<and> cluster_id m = Some c)"
    by (simp only: set_flowNodes_data)
  finally show "nodeClusterMap ?fl i = Some c \<longleftrightarrow> cluster_of fns i = Some c"
    using nodeClusterMap_char [OF d] cluster_of_char [OF assms] by simp
qed

lemma cluster_of_member:
  assumes "cluster_of fns i = Some c"
  shows "c \<in> clusterKey ` set fns \<and> (\<exists>n\<in>set fns. cluster_id n = Some c)"
proof -
  from assms obtain n where "find (\<lambda>n. node_id n = i) fns = Some n" "cluster_id n = Some c"
    by (auto simp: cluster_of_def split: option.splits)
  then have "n \<in> set fns" "clusterKey n = c"
    using find_SomeD [of "\<lambda>n. node_id n = i" fns n] by (auto simp: clusterKey_def)
  then show ?thesis using \<open>cluster_id n = Some c\<close> by auto
qed

lemma crossing_pairs_member:
  assumes "(a, b) \<in> crossing_pairs (cluster_of fns) fes"
  shows "a < b \<and> (\<exists>n\<in>set fns. cluster_id n = Some a) \<and> (\<exists>n\<in>set fns. cluster_id n = Some b)"
proof -
  from assms obtain e where "crossing (cluster_of fns) e = Some (a, b)"
    by (auto simp: crossing_pairs_def map_filter_def)
  then obtain x y where xy: "cluster_of fns (source e) = Some x" "cluster_of fns (target e) = Some y"
    "x \<noteq> y" "a = min x y" "b = max x y"
    by (auto simp: crossing_def split: option.splits if_splits)
  from cluster_of_member [OF xy(1)] cluster_of_member [OF xy(2)] xy(3-5)
  show ?thesis by (auto simp: min_def max_def)
qed

section \<open>Connector edges\<close>

lemma connectorEdge_key_of:
  assumes "0 \<le> a" "0 \<le> b" "centers a = Some s" "centers b = Some t" "s \<noteq> []" "t \<noteq> []"
  shows "connectorEdge centers (key_of (a, b)) =
    Some \<lparr> ce_id = ''cluster-conn-'' @ show_int a @ ''-'' @ show_int b,
           ce_source = s, ce_target = t, ce_clusters = (a, b) \<rparr>"
  using assms by (simp add: connectorEdge_def pair_numbers_key_of center_of_def truthy_def)

lemma map_filter_all_Some:
  "(\<And>x. x \<in> set xs \<Longrightarrow> f x = Some (g x)) \<Longrightarrow> List.map_filter f xs = map g xs"
  by (induction xs) (simp_all add: map_filter_simps)

lemma connectors_of_flow_and_connector:
  "List.map_filter (\<lambda>e. case e of Connector c \<Rightarrow> Some c | Flow x \<Rightarrow> None)
      (map Flow xs @ map Connector ys) = ys"
  by (induction xs) (simp_all add: map_filter_simps, induction ys, simp_all add: map_filter_simps)

lemma connectors_char:
  assumes ids: "distinct (map node_id fns)"
    and ok: "\<forall>n\<in>set fns. node_id n \<noteq> [] \<and> (\<forall>c. cluster_id n = Some c \<longrightarrow> 0 \<le> c)"
  shows "\<exists>keys. distinct keys
      \<and> set keys = key_of ` crossing_pairs (cluster_of fns) fes
      \<and> inj_on key_of (crossing_pairs (cluster_of fns) fes)
      \<and> clusterConnectorEdges (clusterCenters cc fns) (connectedClusters (nodeClusterMap (flowNodes cc h fns)) fes)
          = map (\<lambda>key. \<lparr> ce_id = ''cluster-conn-'' @ key,
                   ce_source = node_id (the (spec_hub cc fns (the (fst (pair_numbers key))))),
                   ce_target = node_id (the (spec_hub cc fns (the (snd (pair_numbers key))))),
                   ce_clusters = (the (fst (pair_numbers key)), the (snd (pair_numbers key))) \<rparr>) keys
      \<and> (\<forall>p\<in>crossing_pairs (cluster_of fns) fes.
            pair_numbers (key_of p) = (Some (fst p), Some (snd p))
            \<and> spec_hub cc fns (fst p) \<noteq> None \<and> spec_hub cc fns (snd p) \<noteq> None)"
proof -
  let ?P = "crossing_pairs (cluster_of fns) fes"
  let ?keys = "connectedClusters (cluster_of fns) fes"
  let ?g = "\<lambda>key. \<lparr> ce_id = ''cluster-conn-'' @ key,
                   ce_source = node_id (the (spec_hub cc fns (the (fst (pair_numbers key))))),
                   ce_target = node_id (the (spec_hub cc fns (the (snd (pair_numbers key))))),
                   ce_clusters = (the (fst (pair_numbers key)), the (snd (pair_numbers key))) \<rparr>"
  have ncm: "nodeClusterMap (flowNodes cc h fns) = cluster_of fns"
    by (rule nodeClusterMap_flowNodes [OF ids])
  have keys: "set ?keys = key_of ` ?P" "distinct ?keys"
    using connectedClusters_props [of "cluster_of fns" fes] by blast+
  have cluster: "\<exists>hub. 0 \<le> k \<and> spec_hub cc fns k = Some hub
        \<and> clusterCenters cc fns k = Some (node_id hub) \<and> node_id hub \<noteq> []"
    if "\<exists>n\<in>set fns. cluster_id n = Some k" for k
  proof -
    from that obtain n where n: "n \<in> set fns" "cluster_id n = Some k" by blast
    then have k0: "0 \<le> k" using ok by blast
    from n have "k \<in> clusterKey ` set fns" by (force simp: clusterKey_def)
    then obtain clusterIdx where e: "(clusterIdx, k, filter (\<lambda>n. clusterKey n = k) fns) \<in> set (clusterEntries fns)"
      by (rule entry_of_member)
    let ?ms = "filter (\<lambda>n. clusterKey n = k) fns"
    have hub: "spec_hub cc fns k = Some (hd (sortedNodes cc ?ms))" by (rule spec_hub_entry [OF e])
    have ctr: "clusterCenters cc fns k = Some (node_id (hd (sortedNodes cc ?ms)))"
      by (rule clusterCenters_entry [OF e])
    have "hd (sortedNodes cc ?ms) \<in> set fns"
      using find_SomeD [OF hub [unfolded spec_hub_def]] by simp
    then have "node_id (hd (sortedNodes cc ?ms)) \<noteq> []" using ok by blast
    with k0 hub ctr show ?thesis by blast
  qed
  have pair: "pair_numbers (key_of p) = (Some (fst p), Some (snd p))
      \<and> spec_hub cc fns (fst p) \<noteq> None \<and> spec_hub cc fns (snd p) \<noteq> None
      \<and> connectorEdge (clusterCenters cc fns) (key_of p) = Some (?g (key_of p))"
    if "p \<in> ?P" for p
  proof -
    obtain a b where p: "p = (a, b)" by (cases p)
    from crossing_pairs_member [OF that [unfolded p]]
    have ea: "\<exists>n\<in>set fns. cluster_id n = Some a" and eb: "\<exists>n\<in>set fns. cluster_id n = Some b"
      by blast+
    from cluster [OF ea] obtain ha where ha: "0 \<le> a" "spec_hub cc fns a = Some ha"
      "clusterCenters cc fns a = Some (node_id ha)" "node_id ha \<noteq> []" by blast
    from cluster [OF eb] obtain hb where hb: "0 \<le> b" "spec_hub cc fns b = Some hb"
      "clusterCenters cc fns b = Some (node_id hb)" "node_id hb \<noteq> []" by blast
    have nums: "pair_numbers (key_of (a, b)) = (Some a, Some b)"
      by (rule pair_numbers_key_of [OF ha(1) hb(1)])
    have "connectorEdge (clusterCenters cc fns) (key_of (a, b)) =
        Some \<lparr> ce_id = ''cluster-conn-'' @ show_int a @ ''-'' @ show_int b,
               ce_source = node_id ha, ce_target = node_id hb, ce_clusters = (a, b) \<rparr>"
      by (rule connectorEdge_key_of [OF ha(1) hb(1) ha(3) hb(3) ha(4) hb(4)])
    then show ?thesis unfolding p using nums ha(2) hb(2) by (simp add: key_of_def)
  qed
  have inj: "inj_on key_of ?P"
  proof (rule inj_onI)
    fix p q assume "p \<in> ?P" "q \<in> ?P" "key_of p = key_of q"
    then have "(Some (fst p), Some (snd p)) = (Some (fst q), Some (snd q))"
      using pair [of p] pair [of q] by metis
    then show "p = q" by (simp add: prod_eq_iff)
  qed
  have "clusterConnectorEdges (clusterCenters cc fns) ?keys = map ?g ?keys"
    unfolding clusterConnectorEdges_def
  proof (rule map_filter_all_Some)
    fix key assume "key \<in> set ?keys"
    then obtain p where "p \<in> ?P" "key = key_of p" using keys(1) by blast
    then show "connectorEdge (clusterCenters cc fns) key = Some (?g key)" using pair [of p] by simp
  qed
  then have edges: "clusterConnectorEdges (clusterCenters cc fns)
      (connectedClusters (nodeClusterMap (flowNodes cc h fns)) fes) = map ?g ?keys"
    unfolding ncm .
  have all: "\<forall>p\<in>?P. pair_numbers (key_of p) = (Some (fst p), Some (snd p))
            \<and> spec_hub cc fns (fst p) \<noteq> None \<and> spec_hub cc fns (snd p) \<noteq> None"
    using pair by blast
  show ?thesis
    by (rule exI [of _ ?keys]) (intro conjI keys inj edges all)
qed

lemma connectors_eq:
  "connectors f h ns es =
     clusterConnectorEdges (clusterCenters (connectionCount (filteredEdges f ns es)) (filteredNodes f ns))
       (connectedClusters (nodeClusterMap (flowNodes (connectionCount (filteredEdges f ns es)) h (filteredNodes f ns)))
          (filteredEdges f ns es))"
  by (simp add: connectors_def Let_def)

lemmas connector_eval_defs =
  connectors_def clusterConnectorEdges_def connectedClusters_def nodeClusterMap_def
  clusterCenters_def centerNode_def connectorEdge_def pair_numbers_def center_of_def
  truthy_def pair_key_def join_dash_def set_add_def map_filter_simps Number_js_def
  is_digit_def digits_val_def digit_val_def show_int_def digit_char_def

text \<open>
  Claim C5, as stated, fails for the unclustered group: node \<open>a\<close> of cluster 0 and node
  \<open>u\<close> without a cluster id, joined by one edge, form the two groups 0 and \<open>-1\<close> with a
  crossing edge between them, yet no connector edge is synthesized.
\<close>

theorem connector_unclustered_counterexample:
  "map fst (clusterGroups (filteredNodes no_filter unclustered_nodes)) = [0, - 1]
   \<and> crossing_pairs (group_of (filteredNodes no_filter unclustered_nodes))
        (filteredEdges no_filter unclustered_nodes unclustered_edges) = {(- 1, 0)}
   \<and> connectors no_filter None unclustered_nodes unclustered_edges = []"
  by (simp add: crossing_pairs_def crossing_def group_of_def eval_defs connector_eval_defs
        unclustered_nodes_def unclustered_edges_def)

text \<open>
  On negative cluster ids the pair string is read back wrongly: the pair of the clusters
  \<open>-1\<close> and 2 is recorded as \<open>-1-2\<close>, which splits into the numbers 0, 1 and 2, and the
  connector is drawn between the hubs of the clusters 0 and 1.
\<close>

lemma negative_id_pair_example:
  "pair_key (- 1) 2 = ''-1-2''
   \<and> pair_numbers ''-1-2'' = (Some 0, Some 1)
   \<and> map ce_clusters (connectors no_filter None negative_nodes negative_edges) = [(0, 1)]
   \<and> map ce_source (connectors no_filter None negative_nodes negative_edges) = [''x'']
   \<and> map ce_target (connectors no_filter None negative_nodes negative_edges) = [''y'']"
  by (simp add: show_nat.simps eval_defs connector_eval_defs negative_nodes_def negative_edges_def)

text \<open>
  Claim C5, amended. For a graph with distinct, non-empty node ids in which every
  cluster id of a visible node is a non-negative integer (a visible node may also have
  no cluster id): the number of connector edges equals the number of distinct unordered
  pairs of cluster ids that are joined by at least one visible edge between two
  clustered nodes; every such pair gets exactly one connector edge, and its endpoints
  are the ids of the hubs of the two clusters, the smaller cluster id first. An edge with
  an endpoint that has no cluster id contributes no pair. The connector edges are
  published after the flow edges.
\<close>

theorem connectors_minimal:
  assumes "distinct (map node_id ns)"
    and "\<forall>n\<in>set (filteredNodes f ns). node_id n \<noteq> [] \<and> (\<forall>c. cluster_id n = Some c \<longrightarrow> 0 \<le> c)"
  shows "length (connectors f h ns es)
           = card (crossing_pairs (cluster_of (filteredNodes f ns)) (filteredEdges f ns es))
    \<and> distinct (map ce_clusters (connectors f h ns es))
    \<and> set (map ce_clusters (connectors f h ns es))
           = crossing_pairs (cluster_of (filteredNodes f ns)) (filteredEdges f ns es)
    \<and> (\<forall>ce\<in>set (connectors f h ns es).
          map_option node_id (spec_hub (connectionCount (filteredEdges f ns es)) (filteredNodes f ns)
              (fst (ce_clusters ce))) = Some (ce_source ce)
          \<and> map_option node_id (spec_hub (connectionCount (filteredEdges f ns es)) (filteredNodes f ns)
              (snd (ce_clusters ce))) = Some (ce_target ce))
    \<and> List.map_filter (\<lambda>e. case e of Connector c \<Rightarrow> Some c | Flow x \<Rightarrow> None)
          (st_edges (layout f h cnt ns es)) = connectors f h ns es"
proof -
  let ?fns = "filteredNodes f ns"
  let ?fes = "filteredEdges f ns es"
  let ?cc = "connectionCount ?fes"
  let ?P = "crossing_pairs (cluster_of ?fns) ?fes"
  let ?g = "\<lambda>key. \<lparr> ce_id = ''cluster-conn-'' @ key,
                   ce_source = node_id (the (spec_hub ?cc ?fns (the (fst (pair_numbers key))))),
                   ce_target = node_id (the (spec_hub ?cc ?fns (the (snd (pair_numbers key))))),
                   ce_clusters = (the (fst (pair_numbers key)), the (snd (pair_numbers key))) \<rparr>"
  have ids: "distinct (map node_id ?fns)"
    using assms(1) unfolding filteredNodes_def by (rule distinct_map_filter)
  from connectors_char [OF ids assms(2), of ?fes ?cc h] obtain keys where
    d: "distinct keys" and k: "set keys = key_of ` ?P" and inj: "inj_on key_of ?P"
    and conn: "connectors f h ns es = map ?g keys"
    and pairs: "\<forall>p\<in>?P. pair_numbers (key_of p) = (Some (fst p), Some (snd p))
            \<and> spec_hub ?cc ?fns (fst p) \<noteq> None \<and> spec_hub ?cc ?fns (snd p) \<noteq> None"
    unfolding connectors_eq by blast
  have "length (connectors f h ns es) = card (set keys)"
    using d by (simp add: conn distinct_card)
  also have "\<dots> = card ?P" unfolding k by (rule card_image [OF inj])
  finally have count: "length (connectors f h ns es) = card ?P" .
  have cl: "ce_clusters (?g (key_of p)) = p" if "p \<in> ?P" for p
    using pairs that by simp
  have clusters: "map ce_clusters (connectors f h ns es) = map (\<lambda>key. ce_clusters (?g key)) keys"
    by (simp add: conn)
  have inj2: "inj_on (\<lambda>key. ce_clusters (?g key)) (set keys)"
  proof (rule inj_onI)
    fix x y assume "x \<in> set keys" "y \<in> set keys" and eq: "ce_clusters (?g x) = ce_clusters (?g y)"
    then obtain p q where "p \<in> ?P" "x = key_of p" "q \<in> ?P" "y = key_of q" using k by blast
    then show "x = y" using eq cl [of p] cl [of q] by simp
  qed
  have dist: "distinct (map ce_clusters (connectors f h ns es))"
    unfolding clusters using d inj2 by (simp add: distinct_map)
  have "set (map ce_clusters (connectors f h ns es)) = (\<lambda>key. ce_clusters (?g key)) ` key_of ` ?P"
    unfolding clusters by (simp only: set_map k)
  also have "\<dots> = ?P"
  proof -
    have "(\<lambda>key. ce_clusters (?g key)) ` key_of ` ?P = (\<lambda>p. ce_clusters (?g (key_of p))) ` ?P"
      by (simp only: image_image)
    also have "\<dots> = (\<lambda>p. p) ` ?P" by (rule image_cong [OF refl]) (rule cl)
    also have "\<dots> = ?P" by (rule image_ident)
    finally show ?thesis .
  qed
  finally have sets: "set (map ce_clusters (connectors f h ns es)) = ?P" .
  have hubs: "\<forall>ce\<in>set (connectors f h ns es).
          map_option node_id (spec_hub ?cc ?fns (fst (ce_clusters ce))) = Some (ce_source ce)
          \<and> map_option node_id (spec_hub ?cc ?fns (snd (ce_clusters ce))) = Some (ce_target ce)"
  proof
    fix ce assume "ce \<in> set (connectors f h ns es)"
    then have "ce \<in> ?g ` set keys" by (simp only: conn set_map)
    then obtain key where key: "key \<in> set keys" and ce: "ce = ?g key" by (rule imageE)
    from key have "key \<in> key_of ` ?P" by (simp only: k)
    then obtain p where kp: "key = key_of p" and p: "p \<in> ?P" by (rule imageE)
    from pairs p have nums: "pair_numbers (key_of p) = (Some (fst p), Some (snd p))"
      and h1: "spec_hub ?cc ?fns (fst p) \<noteq> None" and h2: "spec_hub ?cc ?fns (snd p) \<noteq> None"
      by blast+
    from h1 obtain x where x: "spec_hub ?cc ?fns (fst p) = Some x" by blast
    from h2 obtain y where y: "spec_hub ?cc ?fns (snd p) = Some y" by blast
    have src: "ce_source ce = node_id x" and tgt: "ce_target ce = node_id y"
      and cls: "ce_clusters ce = p"
      unfolding ce kp by (simp_all add: nums x y)
    show "map_option node_id (spec_hub ?cc ?fns (fst (ce_clusters ce))) = Some (ce_source ce)
          \<and> map_option node_id (spec_hub ?cc ?fns (snd (ce_clusters ce))) = Some (ce_target ce)"
      unfolding cls src tgt by (simp add: x y)
  qed
  have out: "List.map_filter (\<lambda>e. case e of Connector c \<Rightarrow> Some c | Flow x \<Rightarrow> None)
          (st_edges (layout f h cnt ns es)) = connectors f h ns es"
    by (simp add: layout_def Let_def connectors_of_flow_and_connector)
  show ?thesis by (intro conjI count dist sets hubs out)
qed

theorem connectors_minimal_witness:
  "distinct (map node_id two_cluster_nodes)
   \<and> map ce_clusters (connectors no_filter None two_cluster_nodes two_cluster_edges) = [(0, 1)]
   \<and> map ce_source (connectors no_filter None two_cluster_nodes two_cluster_edges) = [''b'']
   \<and> map ce_target (connectors no_filter None two_cluster_nodes two_cluster_edges) = [''c'']
   \<and> crossing_pairs (cluster_of (filteredNodes no_filter two_cluster_nodes))
        (filteredEdges no_filter two_cluster_nodes two_cluster_edges) = {(0, 1)}
   \<and> length (connectors no_filter None two_cluster_nodes two_cluster_edges) = 1"
proof -
  have d: "distinct (map node_id two_cluster_nodes)"
    by (simp add: two_cluster_nodes_def mk_node_def)
  have ok: "\<forall>n\<in>set (filteredNodes no_filter two_cluster_nodes).
      node_id n \<noteq> [] \<and> (\<forall>c. cluster_id n = Some c \<longrightarrow> 0 \<le> c)"
    by (simp add: eval_defs two_cluster_nodes_def)
  have ev: "map ce_clusters (connectors no_filter None two_cluster_nodes two_cluster_edges) = [(0, 1)]"
    "map ce_source (connectors no_filter None two_cluster_nodes two_cluster_edges) = [''b'']"
    "map ce_target (connectors no_filter None two_cluster_nodes two_cluster_edges) = [''c'']"
    by (simp_all add: show_nat.simps eval_defs connector_eval_defs two_cluster_nodes_def two_cluster_edges_def)
  note T = connectors_minimal [OF d ok, of None two_cluster_edges None]
  have len: "length (connectors no_filter None two_cluster_nodes two_cluster_edges)
        = card (crossing_pairs (cluster_of (filteredNodes no_filter two_cluster_nodes))
             (filteredEdges no_filter two_cluster_nodes two_cluster_edges))"
    by (rule T [THEN conjunct1])
  have "set (map ce_clusters (connectors no_filter None two_cluster_nodes two_cluster_edges))
        = crossing_pairs (cluster_of (filteredNodes no_filter two_cluster_nodes))
             (filteredEdges no_filter two_cluster_nodes two_cluster_edges)"
    by (rule T [THEN conjunct2, THEN conjunct2, THEN conjunct1])
  then have pairs: "crossing_pairs (cluster_of (filteredNodes no_filter two_cluster_nodes))
        (filteredEdges no_filter two_cluster_nodes two_cluster_edges) = {(0, 1)}"
    unfolding ev(1) by simp
  have one: "length (connectors no_filter None two_cluster_nodes two_cluster_edges) = 1"
    unfolding len pairs by simp
  show ?thesis by (intro conjI d ev pairs one)
qed

section \<open>Facts about the basic page and rounding\<close>














section \<open>Determinism\<close>














end
